theory Spec2Isabelle
  imports Main "HOL-Library.Word" "HOL-Library.Multiset" "HOL-Library.Stream"
begin

section \<open>Data model of the extent placement layer\<close>

text \<open>
  The development embeds \<^verbatim>\<open>crimson/os/seastore/extent_placement_manager.h\<close>.
  The integer typedefs are declared in \<^verbatim>\<open>seastore_types.h\<close>. A \<^verbatim>\<open>segment_off_t\<close> is a
  signed 32-bit integer: a 32-bit word whose value is read by \<open>sint\<close> and whose additions
  wrap around. A \<^verbatim>\<open>size_t\<close> result is a 64-bit word. \<^verbatim>\<open>bufferptr::length()\<close> returns an
  \<^verbatim>\<open>unsigned\<close>, a 32-bit word. Identifiers, on which the file does no arithmetic, are
  natural numbers.
\<close>

type_synonym segment_id_t = nat
type_synonym segment_off_t = "32 word"
type_synonym segment_nonce_t = nat
type_synonym laddr_t = nat
type_synonym extent_types_t = nat
type_synonym bufferlist = "8 word list"

text \<open>A physical address: a segment and a byte offset within it.\<close>

record paddr_t =
  seg_id :: segment_id_t
  seg_off :: segment_off_t

text \<open>
  Device families. Only \<^verbatim>\<open>SEGMENTED\<close> is named in the file; the comment in
  \<^verbatim>\<open>alloc_new_extent_by_type\<close> names NVDIMM/PMEM as families without delayed allocation.
\<close>

datatype device_type_t = SEGMENTED | RANDOM_BLOCK | PMEM

text \<open>Placement hints: an opaque classifier, of which the file names \<^verbatim>\<open>NONE\<close>.\<close>

datatype ool_placement_hint_t = NONE | HINT nat

text \<open>
  The fields of a \<^verbatim>\<open>LogicalCachedExtent\<close> that the file reads or writes, named after the
  accessor or member used (\<^verbatim>\<open>get_type()\<close>, \<^verbatim>\<open>get_laddr()\<close>, \<^verbatim>\<open>get_paddr()\<close>,
  \<^verbatim>\<open>get_bptr()\<close>, \<^verbatim>\<open>is_valid()\<close>, \<^verbatim>\<open>backend_type\<close>, \<^verbatim>\<open>hint\<close>).
\<close>

record cached_extent =
  get_type :: extent_types_t
  get_laddr :: laddr_t
  get_paddr :: paddr_t
  get_bptr :: bufferlist
  is_valid :: bool
  backend_type :: device_type_t
  hint :: ool_placement_hint_t

text \<open>
  Extents are shared through \<^verbatim>\<open>LogicalCachedExtentRef\<close> (an intrusive pointer): a
  reference is an address into a store of extents.
\<close>

type_synonym extent_ref = nat
type_synonym allocator_ptr = nat
type_synonym segment_ref = nat

text \<open>
  Failures: the members of the errorators declared in the file, the interruption of a
  transaction (\<^verbatim>\<open>trans_iertr\<close>), and the two ways the code can abort (a failed
  \<^verbatim>\<open>assert\<close>, a remainder by zero).
\<close>

datatype error =
    input_output_error
  | invarg
  | ebadf
  | enospc
  | transaction_interrupted
  | assertion_failed
  | division_by_zero

type_synonym outcome = "error + unit"

text \<open>
  Everything the collaborators own and may change: the store of extents, the
  transaction's delayed-allocation list and its counter of invalid delayed extents, the
  sequence of values \<^verbatim>\<open>std::rand()\<close> is going to return, and the collaborators' own state.
\<close>

record 'c world =
  heap :: "extent_ref \<Rightarrow> cached_extent"
  delayed_alloc_list :: "extent_ref list"
  delayed_invalid_extents :: nat
  rand_seq :: "nat stream"
  collab :: 'c

text \<open>The calls this file issues to its collaborators, logged with their outcome.\<close>

datatype call =
    CacheAllocNewExtentByType extent_types_t segment_off_t bool
  | CacheAllocNewExtent extent_types_t segment_off_t bool
  | MarkDelayedExtentInline extent_ref
  | AllocOolExtentsPaddr allocator_ptr "extent_ref list"
  | UpdateMapping laddr_t paddr_t paddr_t
  | WriterWrite nat "extent_ref list"
  | SegmentClose segment_ref

type_synonym call_log = "(call \<times> outcome) list"

text \<open>
  The collaborators, whose code is outside this file: the cache, the logical index
  (LBA manager), the allocators behind the virtual \<^verbatim>\<open>ExtentAllocator\<close> interface,
  \<^verbatim>\<open>Writer::write\<close> (for the writer at a position of \<^verbatim>\<open>writers\<close>), the segments, and two
  predicates of \<^verbatim>\<open>seastore_types.h\<close>.
  \<^verbatim>\<open>mark_delayed_extent_inline\<close> is given by the address the cache assigns and the
  cache's next state (see \<open>cache_mark_delayed_extent_inline\<close> below); the other calls are
  arbitrary transformers of the world.
\<close>

record 'c collaborators =
  need_delayed_allocation :: "device_type_t \<Rightarrow> bool"
  is_logical_type :: "extent_types_t \<Rightarrow> bool"
  cache_alloc_new_extent_by_type ::
    "extent_types_t \<Rightarrow> segment_off_t \<Rightarrow> bool \<Rightarrow> 'c world \<Rightarrow> extent_ref \<times> 'c world"
  cache_alloc_new_extent ::
    "extent_types_t \<Rightarrow> segment_off_t \<Rightarrow> bool \<Rightarrow> 'c world \<Rightarrow> extent_ref \<times> 'c world"
  cache_inline_paddr :: "extent_ref \<Rightarrow> 'c world \<Rightarrow> paddr_t \<times> 'c"
  alloc_ool_extents_paddr ::
    "allocator_ptr \<Rightarrow> extent_ref list \<Rightarrow> 'c world \<Rightarrow> outcome \<times> 'c world"
  lba_update_mapping ::
    "laddr_t \<Rightarrow> paddr_t \<Rightarrow> paddr_t \<Rightarrow> 'c world \<Rightarrow> outcome \<times> 'c world"
  writer_write :: "nat \<Rightarrow> extent_ref list \<Rightarrow> 'c world \<Rightarrow> outcome \<times> 'c world"
  segment_close :: "segment_ref \<Rightarrow> 'c world \<Rightarrow> outcome \<times> 'c world"

text \<open>\<^verbatim>\<open>std::rand()\<close>: the next value of the sequence.\<close>

definition std_rand :: "'c world \<Rightarrow> nat \<times> 'c world" where
  "std_rand w = (shd (rand_seq w), w\<lparr>rand_seq := stl (rand_seq w)\<rparr>)"

section \<open>ExtentPlacementManager: allocation of new extents\<close>

record ExtentPlacementManager =
  allocators :: "device_type_t \<Rightarrow> allocator_ptr list"

definition add_allocator ::
  "device_type_t \<Rightarrow> allocator_ptr \<Rightarrow> ExtentPlacementManager \<Rightarrow> ExtentPlacementManager" where
  "add_allocator type allocator pm =
     pm\<lparr>allocators := (allocators pm)(type := allocators pm type @ [allocator])\<rparr>"

definition get_allocator_type :: "ool_placement_hint_t \<Rightarrow> device_type_t" where
  "get_allocator_type h = SEGMENTED"

text \<open>
  \<^verbatim>\<open>extent->backend_type = dtype; extent->hint = hint;\<close> through the reference.
\<close>

definition set_backend_and_hint ::
  "extent_ref \<Rightarrow> device_type_t \<Rightarrow> ool_placement_hint_t \<Rightarrow> 'c world \<Rightarrow> 'c world" where
  "set_backend_and_hint r dtype h w =
     w\<lparr>heap := (heap w)(r := (heap w r)\<lparr>backend_type := dtype, hint := h\<rparr>)\<rparr>"

text \<open>
  \<^verbatim>\<open>alloc_new_extent_by_type\<close>. The assertion on the type is a branch of the model. The
  call without the fourth argument takes the default of \<^verbatim>\<open>cache.h\<close>, which the spec
  describes as asking for an immediately final address: \<open>False\<close>.
\<close>

definition alloc_new_extent_by_type ::
  "'c collaborators \<Rightarrow> extent_types_t \<Rightarrow> segment_off_t \<Rightarrow> ool_placement_hint_t \<Rightarrow>
     'c world \<times> call_log \<Rightarrow> error + (extent_ref \<times> 'c world \<times> call_log)" where
  "alloc_new_extent_by_type E type len h s =
     (case s of (w, log) \<Rightarrow>
       if \<not> is_logical_type E type then Inl assertion_failed
       else
         let dtype = get_allocator_type h;
             (extent, w1, log1) =
               (if need_delayed_allocation E dtype
                then (case cache_alloc_new_extent_by_type E type len True w of
                        (r, w') \<Rightarrow> (r, w', log @ [(CacheAllocNewExtentByType type len True, Inr ())]))
                else (case cache_alloc_new_extent_by_type E type len False w of
                        (r, w') \<Rightarrow> (r, w', log @ [(CacheAllocNewExtentByType type len False, Inr ())])))
         in Inr (extent, set_backend_and_hint extent dtype h w1, log1))"

text \<open>
  \<^verbatim>\<open>alloc_new_extent<T>\<close>: the template parameter is the extent type \<open>T\<close>, a logical
  type by the \<^verbatim>\<open>enable_if\<close> constraint, so there is no assertion.
\<close>

definition alloc_new_extent ::
  "'c collaborators \<Rightarrow> extent_types_t \<Rightarrow> segment_off_t \<Rightarrow> ool_placement_hint_t \<Rightarrow>
     'c world \<times> call_log \<Rightarrow> extent_ref \<times> 'c world \<times> call_log" where
  "alloc_new_extent E T len h s =
     (case s of (w, log) \<Rightarrow>
       let dtype = get_allocator_type h;
           (extent, w1, log1) =
             (if need_delayed_allocation E dtype
              then (case cache_alloc_new_extent E T len True w of
                      (r, w') \<Rightarrow> (r, w', log @ [(CacheAllocNewExtent T len True, Inr ())]))
              else (case cache_alloc_new_extent E T len False w of
                      (r, w') \<Rightarrow> (r, w', log @ [(CacheAllocNewExtent T len False, Inr ())])))
       in (extent, set_backend_and_hint extent dtype h w1, log1))"

text \<open>
  \<^verbatim>\<open>get_allocator\<close>: \<^verbatim>\<open>devices[std::rand() % devices.size()]\<close>. A family with no
  registered allocator makes the remainder a division by zero. The result is the
  allocator's address (\<^verbatim>\<open>allocator_ptr.get()\<close>).
\<close>

definition get_allocator ::
  "ExtentPlacementManager \<Rightarrow> device_type_t \<Rightarrow> ool_placement_hint_t \<Rightarrow> 'c world \<Rightarrow>
     error + (allocator_ptr \<times> 'c world)" where
  "get_allocator pm type h w =
     (let devices = allocators pm type in
      case std_rand w of (r, w') \<Rightarrow>
        if length devices = 0 then Inl division_by_zero
        else Inr (devices ! (r mod length devices), w'))"

section \<open>SegmentedAllocator and its writers\<close>

text \<open>
  \<^verbatim>\<open>seastar::gate\<close> (an external library): \<^verbatim>\<open>close()\<close> asserts that the gate has not been
  closed before, marks it closed, and its future resolves once no request is inside.
  Requests enter the gate only in \<^verbatim>\<open>Writer::write\<close>, whose code is outside this file.
\<close>

record gate =
  gate_stopped :: bool

record open_segment_wrapper_t =
  segment :: segment_ref
  outdated :: bool

text \<open>The members of \<^verbatim>\<open>Writer\<close> that the code of this file reads.\<close>

record Writer =
  open_segments :: "open_segment_wrapper_t list"
  writer_guard :: gate

record SegmentedAllocator =
  writers :: "Writer list"

text \<open>
  \<^verbatim>\<open>get_writer\<close>: \<^verbatim>\<open>writers[std::rand() % writers.size()]\<close>. The reference returned is
  the position in \<^verbatim>\<open>writers\<close>.
\<close>

definition get_writer ::
  "SegmentedAllocator \<Rightarrow> ool_placement_hint_t \<Rightarrow> 'c world \<Rightarrow> error + (nat \<times> 'c world)" where
  "get_writer sa h w =
     (case std_rand w of (r, w') \<Rightarrow>
        if length (writers sa) = 0 then Inl division_by_zero
        else Inr (r mod length (writers sa), w'))"

section \<open>The record builder \<^verbatim>\<open>ool_record_t\<close>\<close>

text \<open>
  The descriptor of an extent inside a \<^verbatim>\<open>record_t\<close>: type, logical address, payload.
  The members \<^verbatim>\<open>extents\<close> and \<^verbatim>\<open>deltas\<close> of \<^verbatim>\<open>record_t\<close> are \<open>rec_extents\<close> and
  \<open>rec_deltas\<close> here, the member \<^verbatim>\<open>record\<close> of the builder is \<open>rec\<close>, and the free function
  \<^verbatim>\<open>get_encoded_record_length\<close> is \<open>seastore_get_encoded_record_length\<close>, to keep the
  builder's own names \<^verbatim>\<open>extents\<close> and \<^verbatim>\<open>get_encoded_record_length\<close>.
\<close>

record extent_t =
  extent_type :: extent_types_t
  extent_addr :: laddr_t
  extent_bl :: bufferlist

record record_t =
  rec_extents :: "extent_t list"
  rec_deltas :: "bufferlist list"

record record_size_t =
  mdlength :: nat
  dlength :: nat

text \<open>
  Modelled from the spec: \<^verbatim>\<open>record_size_t\<close> (\<^verbatim>\<open>seastore_types.h\<close>), the pair of the
  metadata length and the payload length that the spec's header-length formula gives, as
  natural numbers. Where the file adds one of them to a \<^verbatim>\<open>segment_off_t\<close> it is converted
  to 32 bits (\<open>of_nat\<close>).
\<close>

text \<open>
  What the record encoding of \<^verbatim>\<open>seastore_types.h\<close> fixes and this file only uses: the
  encoded size of one extent descriptor
  (\<^verbatim>\<open>ceph::encoded_sizeof_bounded<extent_info_t>()\<close>), the fixed overhead of the
  header, and the serialisation \<^verbatim>\<open>encode_record\<close>.
\<close>

record record_encoding =
  extent_info_size :: nat
  fixed_header_overhead :: nat
  encode_record ::
    "record_size_t \<Rightarrow> record_t \<Rightarrow> nat \<Rightarrow> segment_off_t \<Rightarrow> segment_nonce_t \<Rightarrow> bufferlist"

text \<open>
  Modelled from the spec: \<^verbatim>\<open>p2roundup\<close> (\<^verbatim>\<open>include/intarith.h\<close>), which the spec
  calls rounding up to the device block size.
\<close>

definition p2roundup :: "nat \<Rightarrow> nat \<Rightarrow> nat" where
  "p2roundup x align = ((x + align - 1) div align) * align"

text \<open>
  Modelled from the spec: the free functions \<^verbatim>\<open>get_encoded_record_raw_mdlength\<close> and
  \<^verbatim>\<open>get_encoded_record_length\<close> of \<^verbatim>\<open>seastore_types\<close>. The spec gives the header
  length as the per-extent descriptor size times the number of extents plus the fixed
  header overhead, rounded up to the block size, and the encoded length as that header
  length plus the payload length.
\<close>

definition get_encoded_record_raw_mdlength :: "record_encoding \<Rightarrow> record_t \<Rightarrow> nat \<Rightarrow> nat" where
  "get_encoded_record_raw_mdlength C r bs =
     fixed_header_overhead C + extent_info_size C * length (rec_extents r)"

definition seastore_get_encoded_record_length ::
  "record_encoding \<Rightarrow> record_t \<Rightarrow> nat \<Rightarrow> record_size_t" where
  "seastore_get_encoded_record_length C r bs =
     \<lparr>mdlength = p2roundup (get_encoded_record_raw_mdlength C r bs) bs,
      dlength = sum_list (map (\<lambda>d. length (extent_bl d)) (rec_extents r))\<rparr>"

text \<open>
  \<^verbatim>\<open>OolExtent\<close>: the address is default-constructed (\<open>None\<close>) until
  \<^verbatim>\<open>set_ool_paddr\<close>; the extent is held by reference.
\<close>

record OolExtent =
  ool_offset :: "paddr_t option"
  lextent :: extent_ref

definition OolExtent_new :: "extent_ref \<Rightarrow> OolExtent" where
  "OolExtent_new r = \<lparr>ool_offset = None, lextent = r\<rparr>"

definition set_ool_paddr :: "paddr_t \<Rightarrow> OolExtent \<Rightarrow> OolExtent" where
  "set_ool_paddr addr x = x\<lparr>ool_offset := Some addr\<rparr>"

definition get_ool_paddr :: "OolExtent \<Rightarrow> paddr_t option" where
  "get_ool_paddr x = ool_offset x"

definition ool_get_bptr :: "(extent_ref \<Rightarrow> cached_extent) \<Rightarrow> OolExtent \<Rightarrow> bufferlist" where
  "ool_get_bptr h x = get_bptr (h (lextent x))"

record ool_record_t =
  extents :: "OolExtent list"
  rec :: record_t
  block_size :: nat
  extent_buf_len :: segment_off_t
  base :: segment_off_t

text \<open>
  \<^verbatim>\<open>bufferptr::length()\<close>: the number of bytes as an \<^verbatim>\<open>unsigned\<close>.
\<close>

definition bptr_length :: "bufferlist \<Rightarrow> 32 word" where
  "bptr_length bl = of_nat (length bl)"

text \<open>The largest \<^verbatim>\<open>segment_off_t\<close>, the base of a builder that has none.\<close>

definition MAX_SEG_OFF :: segment_off_t where
  "MAX_SEG_OFF = 2147483647"

definition ool_record_t_new :: "nat \<Rightarrow> ool_record_t" where
  "ool_record_t_new bs =
     \<lparr>extents = [], rec = \<lparr>rec_extents = [], rec_deltas = []\<rparr>, block_size = bs,
      extent_buf_len = 0, base = MAX_SEG_OFF\<rparr>"

definition get_encoded_record_length :: "record_encoding \<Rightarrow> ool_record_t \<Rightarrow> record_size_t" where
  "get_encoded_record_length C st = seastore_get_encoded_record_length C (rec st) (block_size st)"


text \<open>
  The loop of \<^verbatim>\<open>encode\<close>: the extents updated, and the final \<^verbatim>\<open>extent_offset\<close>, a
  \<^verbatim>\<open>segment_off_t\<close> to which each length is added in 32 bits.
\<close>

fun encode_extents ::
  "(extent_ref \<Rightarrow> cached_extent) \<Rightarrow> segment_id_t \<Rightarrow> segment_off_t \<Rightarrow> OolExtent list \<Rightarrow>
     OolExtent list \<times> segment_off_t" where
  "encode_extents h seg extent_offset [] = ([], extent_offset)"
| "encode_extents h seg extent_offset (x # xs) =
     (case encode_extents h seg (extent_offset + bptr_length (ool_get_bptr h x)) xs of
        (xs', off') \<Rightarrow> (set_ool_paddr \<lparr>seg_id = seg, seg_off = extent_offset\<rparr> x # xs', off'))"

text \<open>
  \<^verbatim>\<open>encode\<close>. Both assertions are branches. The offsets are sums of 32-bit integers. The
  record is handed to
  \<^verbatim>\<open>encode_record\<close> by rvalue reference; what it holds afterwards is up to
  \<^verbatim>\<open>encode_record\<close> and is left as it was here (the builder is cleared before reuse).
\<close>

definition encode ::
  "record_encoding \<Rightarrow> (extent_ref \<Rightarrow> cached_extent) \<Rightarrow> ool_record_t \<Rightarrow> segment_id_t \<Rightarrow>
     segment_nonce_t \<Rightarrow> error + (bufferlist \<times> ool_record_t)" where
  "encode C h st seg nonce =
     (if length (extents st) \<noteq> length (rec_extents (rec st)) then Inl assertion_failed
      else
        let rsize = get_encoded_record_length C st in
        case encode_extents h seg (base st + of_nat (mdlength rsize)) (extents st) of
          (xs', extent_offset) \<Rightarrow>
            if extent_offset \<noteq> base st + of_nat (mdlength rsize) + of_nat (dlength rsize)
            then Inl assertion_failed
            else Inr (encode_record C rsize (rec st) (block_size st) (base st) nonce,
                      st\<lparr>extents := xs'\<rparr>))"

definition add_extent ::
  "(extent_ref \<Rightarrow> cached_extent) \<Rightarrow> ool_record_t \<Rightarrow> extent_ref \<Rightarrow> ool_record_t" where
  "add_extent h st extent =
     st\<lparr>extents := extents st @ [OolExtent_new extent],
        rec := (rec st)\<lparr>rec_extents := rec_extents (rec st) @
                 [\<lparr>extent_type = get_type (h extent), extent_addr = get_laddr (h extent),
                   extent_bl = get_bptr (h extent)\<rparr>]\<rparr>,
        extent_buf_len := extent_buf_len st + bptr_length (get_bptr (h extent))\<rparr>"

definition get_extents :: "ool_record_t \<Rightarrow> OolExtent list" where
  "get_extents st = extents st"

definition set_base :: "segment_off_t \<Rightarrow> ool_record_t \<Rightarrow> ool_record_t" where
  "set_base b st = st\<lparr>base := b\<rparr>"

definition get_base :: "ool_record_t \<Rightarrow> segment_off_t" where
  "get_base st = base st"

definition clear :: "ool_record_t \<Rightarrow> error + ool_record_t" where
  "clear st =
     (if rec_deltas (rec st) \<noteq> [] then Inl assertion_failed
      else Inr (st\<lparr>extents := [], rec := (rec st)\<lparr>rec_extents := []\<rparr>,
                  extent_buf_len := 0, base := MAX_SEG_OFF\<rparr>))"

definition get_num_extents :: "ool_record_t \<Rightarrow> nat" where
  "get_num_extents st = length (extents st)"

text \<open>
  The state a builder is in between calls: the descriptors are those of the tracked
  extents, in order, there are no deltas, and \<^verbatim>\<open>extent_buf_len\<close> is the total payload
  length reduced to 32 bits. It holds initially and every mutator keeps it (lemmas below).
\<close>

definition ool_record_inv :: "(extent_ref \<Rightarrow> cached_extent) \<Rightarrow> ool_record_t \<Rightarrow> bool" where
  "ool_record_inv h st =
     (rec_extents (rec st) =
        map (\<lambda>x. \<lparr>extent_type = get_type (h (lextent x)), extent_addr = get_laddr (h (lextent x)),
                  extent_bl = get_bptr (h (lextent x))\<rparr>) (extents st) \<and>
      rec_deltas (rec st) = [] \<and>
      extent_buf_len st = of_nat (sum_list (map (\<lambda>x. length (ool_get_bptr h x)) (extents st))))"

section \<open>ExtentPlacementManager: resolving delayed allocations\<close>

text \<open>
  Modelled from the spec: \<^verbatim>\<open>trans_intr::do_for_each\<close>, \<^verbatim>\<open>crimson::do_for_each\<close> and the
  continuations \<^verbatim>\<open>si_then\<close> and \<^verbatim>\<open>then\<close> (\<^verbatim>\<open>crimson/common\<close>, wrapping Seastar's).
  The spec has the inline pairs processed sequentially once the groups have completed,
  and the first failure fail the whole call: the elements are processed in order, each
  after the future of the one before has resolved; the first failure ends the iteration
  and is its result; a continuation runs only after success. Each asynchronous call is
  one step of the model, taken from the state the call before has left: the call for an
  element is issued once the call for the element before has completed with success.
\<close>

fun do_for_each :: "('a \<Rightarrow> 's \<Rightarrow> outcome \<times> 's) \<Rightarrow> 'a list \<Rightarrow> 's \<Rightarrow> outcome \<times> 's" where
  "do_for_each f [] s = (Inr (), s)"
| "do_for_each f (x # xs) s =
     (case f x s of
        (Inl e, s') \<Rightarrow> (Inl e, s')
      | (Inr u, s') \<Rightarrow> do_for_each f xs s')"


text \<open>
  Modelled from the spec: \<^verbatim>\<open>Transaction::increment_delayed_invalid_extents\<close>
  (\<^verbatim>\<open>transaction.h\<close>), the counter of delayed extents found invalid.
\<close>

definition increment_delayed_invalid_extents :: "'c world \<Rightarrow> 'c world" where
  "increment_delayed_invalid_extents w =
     w\<lparr>delayed_invalid_extents := Suc (delayed_invalid_extents w)\<rparr>"

text \<open>
  Modelled from the spec: \<^verbatim>\<open>Cache::mark_delayed_extent_inline\<close> (\<^verbatim>\<open>cache.h\<close>), which
  assigns the extent a final address and records the transition in the cache.
\<close>

definition cache_mark_delayed_extent_inline ::
  "'c collaborators \<Rightarrow> extent_ref \<Rightarrow> 'c world \<Rightarrow> 'c world" where
  "cache_mark_delayed_extent_inline E extent w =
     (case cache_inline_paddr E extent w of
        (addr, c') \<Rightarrow> w\<lparr>heap := (heap w)(extent := (heap w extent)\<lparr>get_paddr := addr\<rparr>),
                        collab := c'\<rparr>)"

definition should_be_inline :: "extent_ref \<Rightarrow> 'c world \<Rightarrow> bool \<times> 'c world" where
  "should_be_inline extent w = (case std_rand w of (r, w') \<Rightarrow> (r mod 2 = 0, w'))"

text \<open>
  \<^verbatim>\<open>alloc_map[key].emplace_back(extent)\<close> on a \<^verbatim>\<open>std::map\<close> with pointer keys: the
  entries are kept in the order of their keys, which is the order of iteration.
\<close>

fun alloc_map_emplace_back ::
  "nat \<Rightarrow> extent_ref \<Rightarrow> (nat \<times> extent_ref list) list \<Rightarrow> (nat \<times> extent_ref list) list" where
  "alloc_map_emplace_back k v [] = [(k, [v])]"
| "alloc_map_emplace_back k v ((k', vs) # m) =
     (if k = k' then (k', vs @ [v]) # m
      else if k < k' then (k, [v]) # (k', vs) # m
      else (k', vs) # alloc_map_emplace_back k v m)"

text \<open>
  The state of one run of \<^verbatim>\<open>delayed_alloc_or_ool_write\<close>: the world, the calls issued so
  far, and the locals \<^verbatim>\<open>alloc_map\<close>, \<^verbatim>\<open>inline_list\<close> and \<^verbatim>\<open>num_ool_extents\<close>.
\<close>

record 'c resolution =
  res_world :: "'c world"
  res_log :: call_log
  alloc_map :: "(allocator_ptr \<times> extent_ref list) list"
  inline_list :: "(paddr_t \<times> extent_ref) list"
  num_ool_extents :: nat

definition resolution_new :: "'c world \<Rightarrow> call_log \<Rightarrow> 'c resolution" where
  "resolution_new w log =
     \<lparr>res_world = w, res_log = log, alloc_map = [], inline_list = [], num_ool_extents = 0\<rparr>"

text \<open>
  The loop over the delayed-allocation list. A family without allocator stops the run
  with the division by zero of \<^verbatim>\<open>get_allocator\<close>.
\<close>

fun delayed_alloc_loop ::
  "'c collaborators \<Rightarrow> ExtentPlacementManager \<Rightarrow> extent_ref list \<Rightarrow> 'c resolution \<Rightarrow>
     outcome \<times> 'c resolution" where
  "delayed_alloc_loop E pm [] s = (Inr (), s)"
| "delayed_alloc_loop E pm (extent # rest) s =
     (if \<not> is_valid (heap (res_world s) extent)
      then delayed_alloc_loop E pm rest
             (s\<lparr>res_world := increment_delayed_invalid_extents (res_world s)\<rparr>)
      else
        case should_be_inline extent (res_world s) of
          (True, w1) \<Rightarrow>
            let old_addr = get_paddr (heap w1 extent);
                w2 = cache_mark_delayed_extent_inline E extent w1
            in delayed_alloc_loop E pm rest
                 (s\<lparr>res_world := w2,
                    res_log := res_log s @ [(MarkDelayedExtentInline extent, Inr ())],
                    inline_list := inline_list s @ [(old_addr, extent)]\<rparr>)
        | (False, w1) \<Rightarrow>
            (case get_allocator pm (backend_type (heap w1 extent)) (hint (heap w1 extent)) w1 of
               Inl e \<Rightarrow> (Inl e, s\<lparr>res_world := w1\<rparr>)
             | Inr (allocator_ptr, w2) \<Rightarrow>
                 delayed_alloc_loop E pm rest
                   (s\<lparr>res_world := w2,
                      alloc_map := alloc_map_emplace_back allocator_ptr extent (alloc_map s),
                      num_ool_extents := Suc (num_ool_extents s)\<rparr>)))"




section \<open>SegmentedAllocator: writing a batch out of line\<close>

text \<open>
  The loop of \<^verbatim>\<open>SegmentedAllocator::alloc_ool_extents_paddr\<close>: each extent is appended to
  the list of the writer \<^verbatim>\<open>get_writer\<close> selects. The keys of the map \<open>m\<close>
  (\<^verbatim>\<open>alloc_map\<close>) are the addresses of the elements of \<^verbatim>\<open>writers\<close>, ordered as their
  positions.
\<close>

fun writers_alloc_loop ::
  "SegmentedAllocator \<Rightarrow> extent_ref list \<Rightarrow> (nat \<times> extent_ref list) list \<times> 'c world \<Rightarrow>
     error + ((nat \<times> extent_ref list) list \<times> 'c world)" where
  "writers_alloc_loop sa [] s = Inr s"
| "writers_alloc_loop sa (extent # rest) s =
     (case s of (m, w) \<Rightarrow>
        case get_writer sa (hint (heap w extent)) w of
          Inl e \<Rightarrow> Inl e
        | Inr (writer, w') \<Rightarrow>
            writers_alloc_loop sa rest (alloc_map_emplace_back writer extent m, w'))"

definition call_writer_write ::
  "'c collaborators \<Rightarrow> nat \<times> extent_ref list \<Rightarrow> 'c world \<times> call_log \<Rightarrow>
     outcome \<times> 'c world \<times> call_log" where
  "call_writer_write E p s =
     (case s of (w, log) \<Rightarrow>
        let writer = fst p; extents_to_persist = snd p in
        case writer_write E writer extents_to_persist w of
          (res, w') \<Rightarrow> (res, w', log @ [(WriterWrite writer extents_to_persist, res)]))"

definition SegmentedAllocator_alloc_ool_extents_paddr ::
  "'c collaborators \<Rightarrow> SegmentedAllocator \<Rightarrow> extent_ref list \<Rightarrow> 'c world \<times> call_log \<Rightarrow>
     outcome \<times> 'c world \<times> call_log" where
  "SegmentedAllocator_alloc_ool_extents_paddr E sa batch s =
     (case s of (w, log) \<Rightarrow>
        case writers_alloc_loop sa batch ([], w) of
          Inl e \<Rightarrow> (Inl e, w, log)
        | Inr (m, w1) \<Rightarrow> do_for_each (call_writer_write E) m (w1, log))"

section \<open>Stopping writers\<close>

text \<open>
  \<^verbatim>\<open>seastar::gate::close()\<close>: the assertion that the gate has not been closed before is a
  branch; the future it returns resolves when the requests inside have left, which the
  model takes as done.
\<close>

definition gate_close :: "gate \<Rightarrow> error + gate" where
  "gate_close g = (if gate_stopped g then Inl assertion_failed else Inr (g\<lparr>gate_stopped := True\<rparr>))"

definition call_segment_close ::
  "'c collaborators \<Rightarrow> open_segment_wrapper_t \<Rightarrow> 'c world \<times> call_log \<Rightarrow>
     outcome \<times> 'c world \<times> call_log" where
  "call_segment_close E seg_wrapper s =
     (case s of (w, log) \<Rightarrow>
        case segment_close E (segment seg_wrapper) w of
          (res, w') \<Rightarrow> (res, w', log @ [(SegmentClose (segment seg_wrapper), res)]))"

text \<open>\<^verbatim>\<open>Writer::stop\<close>: the result, the writer afterwards, the world and the calls.\<close>

definition Writer_stop ::
  "'c collaborators \<Rightarrow> Writer \<Rightarrow> 'c world \<times> call_log \<Rightarrow> outcome \<times> Writer \<times> 'c world \<times> call_log" where
  "Writer_stop E wr s =
     (case gate_close (writer_guard wr) of
        Inl e \<Rightarrow> (Inl e, wr, s)
      | Inr g \<Rightarrow>
          (case do_for_each (call_segment_close E) (open_segments wr) s of
             (res, s') \<Rightarrow> (res, wr\<lparr>writer_guard := g\<rparr>, s')))"

text \<open>
  \<^verbatim>\<open>SegmentedAllocator::stop\<close>: \<^verbatim>\<open>do_for_each\<close> over \<^verbatim>\<open>writers\<close>, each writer stopped in
  place.
\<close>

definition SegmentedAllocator_stop ::
  "'c collaborators \<Rightarrow> SegmentedAllocator \<Rightarrow> 'c world \<times> call_log \<Rightarrow>
     outcome \<times> SegmentedAllocator \<times> 'c world \<times> call_log" where
  "SegmentedAllocator_stop E sa s =
     (case do_for_each
             (\<lambda>i (wrs, s1). case Writer_stop E (wrs ! i) s1 of
                               (res, wr', s2) \<Rightarrow> (res, wrs[i := wr'], s2))
             [0..<length (writers sa)] (writers sa, s) of
        (res, wrs, s') \<Rightarrow> (res, sa\<lparr>writers := wrs\<rparr>, s'))"

section \<open>Concrete instances\<close>

text \<open>Small instances on which the definitions are evaluated.\<close>

definition example_extent :: cached_extent where
  "example_extent =
     \<lparr>get_type = 3, get_laddr = 100, get_paddr = \<lparr>seg_id = 0, seg_off = 7\<rparr>,
      get_bptr = [1, 2, 3, 4], is_valid = True, backend_type = SEGMENTED, hint = NONE\<rparr>"

definition example_world :: "nat world" where
  "example_world =
     \<lparr>heap = (\<lambda>r. example_extent\<lparr>get_laddr := 100 + r, get_paddr := \<lparr>seg_id = 0, seg_off = of_nat r\<rparr>\<rparr>),
      delayed_alloc_list = [],
      delayed_invalid_extents = 0,
      rand_seq = siterate Suc 4,
      collab = 0\<rparr>"

text \<open>
  Collaborators that always succeed: the cache hands out the reference numbered by its
  state and assigns inline addresses in segment 9; an allocator moves the extents it is
  given to the segment of its own number.
\<close>

definition example_collaborators :: "nat collaborators" where
  "example_collaborators =
     \<lparr>need_delayed_allocation = (\<lambda>d. d = SEGMENTED \<or> d = RANDOM_BLOCK),
      is_logical_type = (\<lambda>t. 2 \<le> t),
      cache_alloc_new_extent_by_type = (\<lambda>t l d w. (collab w, w\<lparr>collab := Suc (collab w)\<rparr>)),
      cache_alloc_new_extent = (\<lambda>t l d w. (collab w, w\<lparr>collab := Suc (collab w)\<rparr>)),
      cache_inline_paddr = (\<lambda>r w. (\<lparr>seg_id = 9, seg_off = of_nat (collab w)\<rparr>, Suc (collab w))),
      alloc_ool_extents_paddr =
        (\<lambda>a rs w. (Inr (),
           w\<lparr>heap := (\<lambda>r. if r \<in> set rs
                          then (heap w r)\<lparr>get_paddr := \<lparr>seg_id = a, seg_off = of_nat r\<rparr>\<rparr>
                          else heap w r)\<rparr>)),
      lba_update_mapping = (\<lambda>l old new w. (Inr (), w)),
      writer_write = (\<lambda>i rs w. (Inr (), w)),
      segment_close = (\<lambda>s w. (Inr (), w))\<rparr>"

definition example_writer :: Writer where
  "example_writer =
     \<lparr>open_segments = [\<lparr>segment = 11, outdated = True\<rparr>, \<lparr>segment = 12, outdated = False\<rparr>],
      writer_guard = \<lparr>gate_stopped = False\<rparr>\<rparr>"

definition example_allocator :: SegmentedAllocator where
  "example_allocator = \<lparr>writers = [example_writer, example_writer]\<rparr>"

definition example_manager :: ExtentPlacementManager where
  "example_manager = \<lparr>allocators = (\<lambda>d. if d = SEGMENTED then [40, 41] else [])\<rparr>"

text \<open>
  A transaction with four delayed extents, the second of them invalid. With the random
  sequence 4, 5, 6, ... extent 0 becomes inline and extents 2 and 3 go to allocator 40.
\<close>

definition example_delayed_world :: "nat world" where
  "example_delayed_world =
     \<lparr>heap = (\<lambda>r. example_extent\<lparr>get_laddr := 100 + r, get_paddr := \<lparr>seg_id = 0, seg_off = of_nat r\<rparr>,
                                  is_valid := (r \<noteq> 1)\<rparr>),
      delayed_alloc_list = [0, 1, 2, 3],
      delayed_invalid_extents = 0,
      rand_seq = siterate Suc 4,
      collab = 0\<rparr>"


text \<open>Collaborators whose segments fail to close.\<close>

definition example_broken_collaborators :: "nat collaborators" where
  "example_broken_collaborators =
     example_collaborators\<lparr>segment_close := (\<lambda>s w. (Inl input_output_error, w))\<rparr>"

text \<open>
  A record encoding with descriptors of 20 bytes and a fixed overhead of 40 bytes, and a
  store whose extents 0 and 1 carry payloads of 1 GiB each, the others of 4096 bytes.
\<close>

definition example_encoding :: record_encoding where
  "example_encoding =
     \<lparr>extent_info_size = 20, fixed_header_overhead = 40, encode_record = (\<lambda>s r bs b n. [])\<rparr>"


text \<open>A store whose extent \<open>r\<close> carries a payload of \<open>3 + 2 * r\<close> bytes.\<close>

definition example_small_extents :: "extent_ref \<Rightarrow> cached_extent" where
  "example_small_extents r = example_extent\<lparr>get_bptr := replicate (3 + 2 * r) 0\<rparr>"



section \<open>Properties of allocation\<close>

lemma alloc_new_extent_by_type_eq:
  "is_logical_type E ty \<Longrightarrow>
   alloc_new_extent_by_type E ty len h (w, log) =
     (let flag = need_delayed_allocation E (get_allocator_type h);
          res = cache_alloc_new_extent_by_type E ty len flag w
      in Inr (fst res, set_backend_and_hint (fst res) (get_allocator_type h) h (snd res),
              log @ [(CacheAllocNewExtentByType ty len flag, Inr ())]))"
  by (simp add: alloc_new_extent_by_type_def Let_def split: prod.splits)

lemma alloc_new_extent_eq:
  "alloc_new_extent E T len h (w, log) =
     (let flag = need_delayed_allocation E (get_allocator_type h);
          res = cache_alloc_new_extent E T len flag w
      in (fst res, set_backend_and_hint (fst res) (get_allocator_type h) h (snd res),
          log @ [(CacheAllocNewExtent T len flag, Inr ())]))"
  by (simp add: alloc_new_extent_def Let_def split: prod.splits)

lemma set_backend_and_hint_heap:
  "backend_type (heap (set_backend_and_hint r d h w) r) = d \<and>
   hint (heap (set_backend_and_hint r d h w) r) = h"
  by (simp add: set_backend_and_hint_def)

text \<open>
  Claim C9. An extent created through \<^verbatim>\<open>alloc_new_extent_by_type\<close> (for a logical type)
  or \<^verbatim>\<open>alloc_new_extent\<close> is requested from the cache exactly once, with the
  delayed-address flag set if and only if the device family resolved from the hint needs
  delayed allocation; the extent returned is the one the cache created, and in the
  resulting store it carries the resolved device family and the hint.
\<close>

theorem alloc_new_extent_requests_and_records:
  assumes "is_logical_type E ty"
  shows "\<exists>r w1 r' w1'.
     cache_alloc_new_extent_by_type E ty len (need_delayed_allocation E (get_allocator_type h)) w
       = (r, w1) \<and>
     alloc_new_extent_by_type E ty len h (w, log) =
       Inr (r, set_backend_and_hint r (get_allocator_type h) h w1,
            log @ [(CacheAllocNewExtentByType ty len
                      (need_delayed_allocation E (get_allocator_type h)), Inr ())]) \<and>
     backend_type (heap (set_backend_and_hint r (get_allocator_type h) h w1) r)
       = get_allocator_type h \<and>
     hint (heap (set_backend_and_hint r (get_allocator_type h) h w1) r) = h \<and>
     cache_alloc_new_extent E ty len (need_delayed_allocation E (get_allocator_type h)) w
       = (r', w1') \<and>
     alloc_new_extent E ty len h (w, log) =
       (r', set_backend_and_hint r' (get_allocator_type h) h w1',
        log @ [(CacheAllocNewExtent ty len
                  (need_delayed_allocation E (get_allocator_type h)), Inr ())]) \<and>
     backend_type (heap (set_backend_and_hint r' (get_allocator_type h) h w1') r')
       = get_allocator_type h \<and>
     hint (heap (set_backend_and_hint r' (get_allocator_type h) h w1') r') = h"
proof -
  obtain r w1 where a:
    "cache_alloc_new_extent_by_type E ty len (need_delayed_allocation E (get_allocator_type h)) w
       = (r, w1)"
    by (cases "cache_alloc_new_extent_by_type E ty len
                 (need_delayed_allocation E (get_allocator_type h)) w")
  obtain r' w1' where b:
    "cache_alloc_new_extent E ty len (need_delayed_allocation E (get_allocator_type h)) w
       = (r', w1')"
    by (cases "cache_alloc_new_extent E ty len
                 (need_delayed_allocation E (get_allocator_type h)) w")
  have c: "alloc_new_extent_by_type E ty len h (w, log) =
       Inr (r, set_backend_and_hint r (get_allocator_type h) h w1,
            log @ [(CacheAllocNewExtentByType ty len
                      (need_delayed_allocation E (get_allocator_type h)), Inr ())])"
    using assms a by (simp add: alloc_new_extent_by_type_eq Let_def)
  have d: "alloc_new_extent E ty len h (w, log) =
       (r', set_backend_and_hint r' (get_allocator_type h) h w1',
        log @ [(CacheAllocNewExtent ty len
                  (need_delayed_allocation E (get_allocator_type h)), Inr ())])"
    using b by (simp add: alloc_new_extent_eq Let_def)
  show ?thesis
    using a b c d set_backend_and_hint_heap by blast
qed

theorem alloc_new_extent_requests_and_records_witness:
  "is_logical_type example_collaborators 3 \<and>
   alloc_new_extent_by_type example_collaborators 3 4096 (HINT 5) (example_world, []) =
     Inr (0, set_backend_and_hint 0 SEGMENTED (HINT 5) (example_world\<lparr>collab := 1\<rparr>),
          [(CacheAllocNewExtentByType 3 4096 True, Inr ())]) \<and>
   alloc_new_extent example_collaborators 3 4096 (HINT 5) (example_world, []) =
     (0, set_backend_and_hint 0 SEGMENTED (HINT 5) (example_world\<lparr>collab := 1\<rparr>),
      [(CacheAllocNewExtent 3 4096 True, Inr ())])"
proof -
  have l: "is_logical_type example_collaborators 3"
    by (simp add: example_collaborators_def)
  show ?thesis
    using l alloc_new_extent_requests_and_records [OF l, of 4096 "HINT 5" example_world "[]"]
    by (simp add: example_collaborators_def example_world_def get_allocator_type_def)
qed

text \<open>
  Claim C10. \<^verbatim>\<open>get_allocator_type\<close> returns \<^verbatim>\<open>SEGMENTED\<close> for every hint; hence every
  extent allocated through the placement manager carries the family \<^verbatim>\<open>SEGMENTED\<close>
  whatever its hint, and the delayed-address flag passed to the cache is
  \<^verbatim>\<open>need_delayed_allocation(SEGMENTED)\<close>, the same for all hints.
\<close>

theorem get_allocator_type_segmented:
  "get_allocator_type h = SEGMENTED \<and>
   (\<forall>r w' log'. alloc_new_extent_by_type E ty len h (w, log) = Inr (r, w', log') \<longrightarrow>
      backend_type (heap w' r) = SEGMENTED \<and>
      log' = log @ [(CacheAllocNewExtentByType ty len (need_delayed_allocation E SEGMENTED),
                     Inr ())]) \<and>
   (\<forall>r w' log'. alloc_new_extent E ty len h (w, log) = (r, w', log') \<longrightarrow>
      backend_type (heap w' r) = SEGMENTED \<and>
      log' = log @ [(CacheAllocNewExtent ty len (need_delayed_allocation E SEGMENTED),
                     Inr ())])"
proof (intro conjI allI impI)
  show "get_allocator_type h = SEGMENTED"
    by (simp add: get_allocator_type_def)
next
  fix r w' log'
  assume a: "alloc_new_extent_by_type E ty len h (w, log) = Inr (r, w', log')"
  then have l: "is_logical_type E ty"
    by (auto simp: alloc_new_extent_by_type_def split: if_splits)
  from a show "backend_type (heap w' r) = SEGMENTED"
    by (auto simp: alloc_new_extent_by_type_eq [OF l] Let_def set_backend_and_hint_heap
        get_allocator_type_def)
  from a show "log' = log @ [(CacheAllocNewExtentByType ty len
      (need_delayed_allocation E SEGMENTED), Inr ())]"
    by (auto simp: alloc_new_extent_by_type_eq [OF l] Let_def get_allocator_type_def)
next
  fix r w' log'
  assume a: "alloc_new_extent E ty len h (w, log) = (r, w', log')"
  from a show "backend_type (heap w' r) = SEGMENTED"
    by (auto simp: alloc_new_extent_eq Let_def set_backend_and_hint_heap get_allocator_type_def)
  from a show "log' = log @ [(CacheAllocNewExtent ty len
      (need_delayed_allocation E SEGMENTED), Inr ())]"
    by (auto simp: alloc_new_extent_eq Let_def get_allocator_type_def)
qed

theorem get_allocator_type_segmented_witness:
  "get_allocator_type (HINT 5) = SEGMENTED \<and>
   alloc_new_extent_by_type example_collaborators 3 4096 (HINT 5) (example_world, []) =
     Inr (0, set_backend_and_hint 0 SEGMENTED (HINT 5) (example_world\<lparr>collab := 1\<rparr>),
          [(CacheAllocNewExtentByType 3 4096 True, Inr ())]) \<and>
   backend_type
     (heap (set_backend_and_hint 0 SEGMENTED (HINT 5) (example_world\<lparr>collab := 1\<rparr>)) 0)
     = SEGMENTED"
proof -
  have e: "alloc_new_extent_by_type example_collaborators 3 4096 (HINT 5) (example_world, []) =
     Inr (0, set_backend_and_hint 0 SEGMENTED (HINT 5) (example_world\<lparr>collab := 1\<rparr>),
          [(CacheAllocNewExtentByType 3 4096 True, Inr ())])"
    by (simp add: alloc_new_extent_by_type_def example_collaborators_def example_world_def
        get_allocator_type_def)
  show ?thesis
    using e get_allocator_type_segmented
      [of "HINT 5" example_collaborators 3 4096 example_world "[]"]
    by simp
qed

section \<open>Selection of writers and allocators\<close>

lemma get_writer_eq:
  "get_writer sa h w =
     (if writers sa = [] then Inl division_by_zero
      else Inr (shd (rand_seq w) mod length (writers sa), w\<lparr>rand_seq := stl (rand_seq w)\<rparr>))"
  by (simp add: get_writer_def std_rand_def)

lemma get_allocator_eq:
  "get_allocator pm ty h w =
     (if allocators pm ty = [] then Inl division_by_zero
      else Inr (allocators pm ty ! (shd (rand_seq w) mod length (allocators pm ty)),
                w\<lparr>rand_seq := stl (rand_seq w)\<rparr>))"
  by (simp add: get_allocator_def std_rand_def Let_def)

text \<open>
  Claim C7, as the code has it. The writer and the allocator selected do not depend on
  the placement hint: two calls that differ in the hint only return the same writer and
  the same allocator. From a pool that is not empty the call returns a member of the
  pool: of \<open>n\<close> writers (of the \<open>n\<close> allocators registered for the family) the one at
  position \<open>r mod n\<close>, where \<open>r\<close> is the next value of \<^verbatim>\<open>std::rand()\<close>.
\<close>

theorem selection_ignores_hint:
  "get_writer sa h w = get_writer sa h' w \<and>
   get_allocator pm ty h w = get_allocator pm ty h' w \<and>
   (writers sa \<noteq> [] \<longrightarrow>
      get_writer sa h w =
        Inr (shd (rand_seq w) mod length (writers sa), w\<lparr>rand_seq := stl (rand_seq w)\<rparr>) \<and>
      shd (rand_seq w) mod length (writers sa) < length (writers sa)) \<and>
   (allocators pm ty \<noteq> [] \<longrightarrow>
      get_allocator pm ty h w =
        Inr (allocators pm ty ! (shd (rand_seq w) mod length (allocators pm ty)),
             w\<lparr>rand_seq := stl (rand_seq w)\<rparr>) \<and>
      allocators pm ty ! (shd (rand_seq w) mod length (allocators pm ty))
        \<in> set (allocators pm ty))"
  by (simp add: get_writer_eq get_allocator_eq)

lemma example_allocator_writers:
  "writers example_allocator \<noteq> [] \<and> length (writers example_allocator) = 2"
  by (simp add: example_allocator_def)

lemma example_manager_allocators:
  "allocators example_manager SEGMENTED \<noteq> [] \<and>
   length (allocators example_manager SEGMENTED) = 2 \<and>
   allocators example_manager SEGMENTED ! 0 = 40 \<and>
   allocators example_manager SEGMENTED ! 1 = 41"
  by (simp add: example_manager_def)

theorem selection_ignores_hint_witness:
  "writers example_allocator \<noteq> [] \<and> allocators example_manager SEGMENTED \<noteq> [] \<and>
   get_writer example_allocator (HINT 1) (example_world\<lparr>rand_seq := siterate Suc 7\<rparr>) =
     Inr (1, example_world\<lparr>rand_seq := siterate Suc 8\<rparr>) \<and>
   get_allocator example_manager SEGMENTED (HINT 1)
       (example_world\<lparr>rand_seq := siterate Suc 7\<rparr>) =
     Inr (41, example_world\<lparr>rand_seq := siterate Suc 8\<rparr>)"
  using example_allocator_writers example_manager_allocators selection_ignores_hint
      [of example_allocator "HINT 1" "example_world\<lparr>rand_seq := siterate Suc 7\<rparr>" "HINT 1"
          example_manager SEGMENTED]
  by simp

text \<open>
  Claim C7, as the spec states it, fails: two consecutive calls with the same hint
  \<^verbatim>\<open>NONE\<close> on the same pool select writer 0 and then writer 1, and allocator 40 and then
  allocator 41.
\<close>

theorem same_hint_different_selection:
  "get_writer example_allocator NONE (example_world\<lparr>rand_seq := siterate Suc 4\<rparr>) =
     Inr (0, example_world\<lparr>rand_seq := siterate Suc 5\<rparr>) \<and>
   get_writer example_allocator NONE (example_world\<lparr>rand_seq := siterate Suc 5\<rparr>) =
     Inr (1, example_world\<lparr>rand_seq := siterate Suc 6\<rparr>) \<and>
   get_allocator example_manager SEGMENTED NONE (example_world\<lparr>rand_seq := siterate Suc 4\<rparr>) =
     Inr (40, example_world\<lparr>rand_seq := siterate Suc 5\<rparr>) \<and>
   get_allocator example_manager SEGMENTED NONE (example_world\<lparr>rand_seq := siterate Suc 5\<rparr>) =
     Inr (41, example_world\<lparr>rand_seq := siterate Suc 6\<rparr>)"
  using example_allocator_writers example_manager_allocators
  by (simp add: get_writer_eq get_allocator_eq)

section \<open>Properties of the record builder\<close>

lemma ool_record_inv_new: "ool_record_inv h (ool_record_t_new bs)"
  by (simp add: ool_record_inv_def ool_record_t_new_def)

lemma ool_record_inv_add_extent:
  "ool_record_inv h st \<Longrightarrow> ool_record_inv h (add_extent h st r)"
  by (simp add: ool_record_inv_def add_extent_def OolExtent_new_def ool_get_bptr_def
      bptr_length_def)

lemma ool_record_inv_set_base:
  "ool_record_inv h st \<Longrightarrow> ool_record_inv h (set_base b st)"
  by (simp add: ool_record_inv_def set_base_def)

lemma ool_record_inv_clear:
  "ool_record_inv h st \<Longrightarrow> \<exists>st'. clear st = Inr st' \<and> ool_record_inv h st'"
  by (simp add: ool_record_inv_def clear_def)

lemma ool_record_inv_batch:
  "ool_record_inv h st \<Longrightarrow> ool_record_inv h (foldl (add_extent h) st es)"
  by (induction es arbitrary: st) (simp_all add: ool_record_inv_add_extent)

lemma extents_batch:
  "extents (foldl (add_extent h) st es) = extents st @ map OolExtent_new es"
  by (induction es arbitrary: st) (simp_all add: add_extent_def)

lemma block_size_batch:
  "block_size (foldl (add_extent h) st es) = block_size st"
  by (induction es arbitrary: st) (simp_all add: add_extent_def)

lemma encode_extents_length:
  "length (fst (encode_extents h seg off xs)) = length xs"
  by (induction xs arbitrary: off) (simp_all add: case_prod_beta)

lemma encode_extents_offset:
  "snd (encode_extents h seg off xs) =
     off + of_nat (sum_list (map (\<lambda>x. length (ool_get_bptr h x)) xs))"
  by (induction xs arbitrary: off) (simp_all add: case_prod_beta bptr_length_def)

lemma encode_extents_nth:
  "i < length xs \<Longrightarrow>
   fst (encode_extents h seg off xs) ! i =
     set_ool_paddr
       \<lparr>seg_id = seg,
        seg_off = off + of_nat (sum_list (map (\<lambda>x. length (ool_get_bptr h x)) (take i xs)))\<rparr>
       (xs ! i)"
proof (induction xs arbitrary: off i)
  case Nil
  then show ?case by simp
next
  case (Cons x xs)
  show ?case
  proof (cases i)
    case 0
    then show ?thesis by (simp add: case_prod_beta)
  next
    case (Suc j)
    with Cons.prems have "j < length xs" by simp
    from Cons.IH [OF this, of "off + bptr_length (ool_get_bptr h x)"] Suc
    show ?thesis by (simp add: case_prod_beta add.assoc bptr_length_def)
  qed
qed

lemma encode_of_inv:
  assumes "ool_record_inv h st"
  shows "encode C h st seg nonce =
     Inr (encode_record C (get_encoded_record_length C st) (rec st) (block_size st) (base st) nonce,
          st\<lparr>extents := fst (encode_extents h seg
                 (base st + of_nat (mdlength (get_encoded_record_length C st))) (extents st))\<rparr>)"
proof -
  let ?rsize = "get_encoded_record_length C st"
  have len: "length (extents st) = length (rec_extents (rec st))"
    using assms by (simp add: ool_record_inv_def)
  have "map (\<lambda>d. length (extent_bl d)) (rec_extents (rec st)) =
        map (\<lambda>x. length (ool_get_bptr h x)) (extents st)"
    using assms by (simp add: ool_record_inv_def ool_get_bptr_def comp_def)
  then have dl: "dlength ?rsize = sum_list (map (\<lambda>x. length (ool_get_bptr h x)) (extents st))"
    by (simp add: get_encoded_record_length_def seastore_get_encoded_record_length_def)
  have off: "snd (encode_extents h seg (base st + of_nat (mdlength ?rsize)) (extents st)) =
      base st + of_nat (mdlength ?rsize) + of_nat (dlength ?rsize)"
    by (simp add: encode_extents_offset dl)
  show ?thesis
    using len off by (simp add: encode_def Let_def case_prod_beta)
qed

text \<open>Reading 32-bit sums as signed integers, in the range where they do not wrap.\<close>

lemma sint_of_nat_32:
  assumes "n \<le> 2147483647"
  shows "sint (of_nat n :: 32 word) = int n"
proof -
  have "sint (of_nat n :: 32 word) = signed_take_bit 31 (int n)"
    using sint_sbintrunc' [where 'a = 32, of "int n"] by simp
  also have "\<dots> = int n"
    using assms by (simp add: signed_take_bit_int_eq_self)
  finally show ?thesis .
qed

lemma sint_add_of_nat_32:
  assumes "0 \<le> sint (b :: 32 word)" and "sint b + int n \<le> 2147483647"
  shows "sint (b + of_nat n) = sint b + int n"
proof -
  have n: "n \<le> 2147483647"
    using assms by simp
  have "sint (b + of_nat n) = signed_take_bit 31 (sint b + sint (of_nat n :: 32 word))"
    using sint_word_add [of b "of_nat n"] by simp
  also have "\<dots> = signed_take_bit 31 (sint b + int n)"
    by (simp add: sint_of_nat_32 [OF n])
  also have "\<dots> = sint b + int n"
    using assms by (simp add: signed_take_bit_int_eq_self)
  finally show ?thesis .
qed



lemma example_small_extents_length:
  "length (get_bptr (example_small_extents r)) = 3 + 2 * r"
  by (simp add: example_small_extents_def)


text \<open>
  Claim C1, as the code has it. For the batch of extents \<open>es\<close> added in order to a fresh
  builder whose base is then set to \<open>b\<close>, \<^verbatim>\<open>encode(segment, nonce)\<close> passes both
  assertions, returns the buffer \<^verbatim>\<open>encode_record\<close> serialises from the record, and leaves
  extent number \<open>i\<close> with the address (segment, \<open>b\<close> + metadata length + payload lengths of
  the extents before it), the sum being taken in the 32 bits of \<^verbatim>\<open>segment_off_t\<close>. When
  \<open>b\<close> is not negative and \<open>b\<close> + metadata length + the payload length of the whole batch
  does not exceed \<^verbatim>\<open>MAX_SEG_OFF\<close>, the offset of every extent, read as a signed integer,
  is that sum of integers.
\<close>

theorem encode_assigns_addresses:
  "encode C h (set_base b (foldl (add_extent h) (ool_record_t_new bs) es)) seg nonce =
     Inr (encode_record C
            (get_encoded_record_length C (set_base b (foldl (add_extent h) (ool_record_t_new bs) es)))
            (rec (set_base b (foldl (add_extent h) (ool_record_t_new bs) es))) bs b nonce,
          (set_base b (foldl (add_extent h) (ool_record_t_new bs) es))
            \<lparr>extents :=
               map (\<lambda>i. \<lparr>ool_offset = Some
                          \<lparr>seg_id = seg,
                           seg_off = b +
                             of_nat (mdlength (get_encoded_record_length C
                               (set_base b (foldl (add_extent h) (ool_record_t_new bs) es)))) +
                             of_nat (sum_list (map (\<lambda>r. length (get_bptr (h r))) (take i es)))\<rparr>,
                         lextent = es ! i\<rparr>)
                 [0..<length es]\<rparr>) \<and>
   (0 \<le> sint b \<and>
    sint b +
      int (mdlength (get_encoded_record_length C
             (set_base b (foldl (add_extent h) (ool_record_t_new bs) es)))) +
      int (sum_list (map (\<lambda>r. length (get_bptr (h r))) es)) \<le> sint MAX_SEG_OFF \<longrightarrow>
    (\<forall>i<length es.
       sint (b +
          of_nat (mdlength (get_encoded_record_length C
             (set_base b (foldl (add_extent h) (ool_record_t_new bs) es)))) +
          of_nat (sum_list (map (\<lambda>r. length (get_bptr (h r))) (take i es)))) =
       sint b +
         int (mdlength (get_encoded_record_length C
             (set_base b (foldl (add_extent h) (ool_record_t_new bs) es)))) +
         int (sum_list (map (\<lambda>r. length (get_bptr (h r))) (take i es)))))"
proof (rule conjI)
  let ?st = "set_base b (foldl (add_extent h) (ool_record_t_new bs) es)"
  let ?md = "mdlength (get_encoded_record_length C ?st)"
  have inv: "ool_record_inv h ?st"
    by (simp add: ool_record_inv_set_base ool_record_inv_batch ool_record_inv_new)
  have xs: "extents ?st = map OolExtent_new es"
    by (simp add: set_base_def extents_batch ool_record_t_new_def)
  have bs: "block_size ?st = bs"
    by (simp add: set_base_def block_size_batch ool_record_t_new_def)
  have b: "base ?st = b"
    by (simp add: set_base_def)
  have "fst (encode_extents h seg (b + of_nat ?md) (map OolExtent_new es)) =
      map (\<lambda>i. \<lparr>ool_offset = Some \<lparr>seg_id = seg,
                   seg_off = b + of_nat ?md +
                     of_nat (sum_list (map (\<lambda>r. length (get_bptr (h r))) (take i es)))\<rparr>,
                 lextent = es ! i\<rparr>) [0..<length es]"
  proof (rule nth_equalityI)
    show "length (fst (encode_extents h seg (b + of_nat ?md) (map OolExtent_new es))) =
        length (map (\<lambda>i. \<lparr>ool_offset = Some \<lparr>seg_id = seg,
                   seg_off = b + of_nat ?md +
                     of_nat (sum_list (map (\<lambda>r. length (get_bptr (h r))) (take i es)))\<rparr>,
                 lextent = es ! i\<rparr>) [0..<length es])"
      by (simp add: encode_extents_length)
  next
    fix i
    assume "i < length (fst (encode_extents h seg (b + of_nat ?md) (map OolExtent_new es)))"
    then have i: "i < length es"
      by (simp add: encode_extents_length)
    then show "fst (encode_extents h seg (b + of_nat ?md) (map OolExtent_new es)) ! i =
        map (\<lambda>i. \<lparr>ool_offset = Some \<lparr>seg_id = seg,
                   seg_off = b + of_nat ?md +
                     of_nat (sum_list (map (\<lambda>r. length (get_bptr (h r))) (take i es)))\<rparr>,
                 lextent = es ! i\<rparr>) [0..<length es] ! i"
      by (simp add: encode_extents_nth take_map comp_def ool_get_bptr_def OolExtent_new_def
          set_ool_paddr_def)
  qed
  then show "encode C h ?st seg nonce =
     Inr (encode_record C (get_encoded_record_length C ?st) (rec ?st) bs b nonce,
          ?st\<lparr>extents :=
               map (\<lambda>i. \<lparr>ool_offset = Some
                          \<lparr>seg_id = seg,
                           seg_off = b + of_nat ?md +
                             of_nat (sum_list (map (\<lambda>r. length (get_bptr (h r))) (take i es)))\<rparr>,
                         lextent = es ! i\<rparr>)
                 [0..<length es]\<rparr>)"
    using encode_of_inv [OF inv, of C seg nonce] xs bs b by simp
next
  let ?st = "set_base b (foldl (add_extent h) (ool_record_t_new bs) es)"
  let ?md = "mdlength (get_encoded_record_length C ?st)"
  let ?len = "\<lambda>r. length (get_bptr (h r))"
  show "0 \<le> sint b \<and> sint b + int ?md + int (sum_list (map ?len es)) \<le> sint MAX_SEG_OFF \<longrightarrow>
    (\<forall>i<length es.
       sint (b + of_nat ?md + of_nat (sum_list (map ?len (take i es)))) =
       sint b + int ?md + int (sum_list (map ?len (take i es))))"
  proof (intro impI allI)
    fix i
    assume range: "0 \<le> sint b \<and> sint b + int ?md + int (sum_list (map ?len es)) \<le> sint MAX_SEG_OFF"
      and "i < length es"
    have "sum_list (map ?len es) =
        sum_list (map ?len (take i es)) + sum_list (map ?len (drop i es))"
      by (metis append_take_drop_id map_append sum_list_append)
    then have le: "sum_list (map ?len (take i es)) \<le> sum_list (map ?len es)"
      by simp
    have max: "sint MAX_SEG_OFF = 2147483647"
      by (simp add: MAX_SEG_OFF_def)
    have "sint b + int (?md + sum_list (map ?len (take i es))) \<le> 2147483647"
      using range le max by simp
    from sint_add_of_nat_32 [OF _ this] range
    show "sint (b + of_nat ?md + of_nat (sum_list (map ?len (take i es)))) =
       sint b + int ?md + int (sum_list (map ?len (take i es)))"
      by (simp add: add.assoc)
  qed
qed

theorem encode_assigns_addresses_witness:
  "encode example_encoding example_small_extents
      (set_base 4096 (foldl (add_extent example_small_extents) (ool_record_t_new 512) [0, 1, 2]))
      7 0 =
   Inr ([],
     (set_base 4096 (foldl (add_extent example_small_extents) (ool_record_t_new 512) [0, 1, 2]))
       \<lparr>extents :=
          [\<lparr>ool_offset = Some \<lparr>seg_id = 7, seg_off = 4608\<rparr>, lextent = 0\<rparr>,
           \<lparr>ool_offset = Some \<lparr>seg_id = 7, seg_off = 4611\<rparr>, lextent = 1\<rparr>,
           \<lparr>ool_offset = Some \<lparr>seg_id = 7, seg_off = 4616\<rparr>, lextent = 2\<rparr>]\<rparr>) \<and>
   map sint [4608, 4611, 4616 :: 32 word] = [4608, 4611, 4616]"
proof -
  let ?st = "set_base 4096 (foldl (add_extent example_small_extents) (ool_record_t_new 512) [0, 1, 2])"
  have range: "0 \<le> sint (4096 :: 32 word) \<and>
      sint (4096 :: 32 word) + int (mdlength (get_encoded_record_length example_encoding ?st)) +
        int (sum_list (map (\<lambda>r. length (get_bptr (example_small_extents r))) [0, 1, 2])) \<le>
      sint MAX_SEG_OFF"
    by (simp add: set_base_def add_extent_def ool_record_t_new_def example_encoding_def
        get_encoded_record_length_def seastore_get_encoded_record_length_def
        get_encoded_record_raw_mdlength_def p2roundup_def example_small_extents_length
        MAX_SEG_OFF_def)
  note t = encode_assigns_addresses [of example_encoding example_small_extents 4096 512
      "[0, 1, 2]" 7 0]
  from t [THEN conjunct2, THEN mp, OF range]
  have s: "map sint [4608, 4611, 4616 :: 32 word] = [4608, 4611, 4616]"
    by simp
  from t [THEN conjunct1]
  have "encode example_encoding example_small_extents ?st 7 0 =
   Inr ([],
     ?st\<lparr>extents :=
          [\<lparr>ool_offset = Some \<lparr>seg_id = 7, seg_off = 4608\<rparr>, lextent = 0\<rparr>,
           \<lparr>ool_offset = Some \<lparr>seg_id = 7, seg_off = 4611\<rparr>, lextent = 1\<rparr>,
           \<lparr>ool_offset = Some \<lparr>seg_id = 7, seg_off = 4616\<rparr>, lextent = 2\<rparr>]\<rparr>)"
    by (simp add: set_base_def add_extent_def ool_record_t_new_def example_encoding_def
        get_encoded_record_length_def seastore_get_encoded_record_length_def
        get_encoded_record_raw_mdlength_def p2roundup_def example_small_extents_length
        upt_rec [of 0] upt_rec [of 1] upt_rec [of 2] upt_rec [of 3])
  with s show ?thesis
    by simp
qed

text \<open>
  With the base \<^verbatim>\<open>MAX_SEG_OFF\<close> (that of a builder whose base was never set), a block
  size of 8 and two extents of 3 and 5 bytes, the metadata length is 8 and the integer
  sums are 2147483655 and 2147483658; the offsets \<^verbatim>\<open>encode\<close> assigns are - 2147483641
  and - 2147483638.
\<close>

theorem encode_offset_wraps:
  "(case encode \<lparr>extent_info_size = 1, fixed_header_overhead = 2,
                  encode_record = (\<lambda>s r bs b n. [])\<rparr>
           example_small_extents
           (set_base MAX_SEG_OFF
              (foldl (add_extent example_small_extents) (ool_record_t_new 8) [0, 1])) 7 0 of
      Inl e \<Rightarrow> []
    | Inr (buf, st') \<Rightarrow>
        map (\<lambda>x. map_option (\<lambda>a. (seg_id a, sint (seg_off a))) (get_ool_paddr x)) (extents st')) =
     [Some (7, - 2147483641), Some (7, - 2147483638)] \<and>
   sint MAX_SEG_OFF +
     int (mdlength (get_encoded_record_length
        \<lparr>extent_info_size = 1, fixed_header_overhead = 2, encode_record = (\<lambda>s r bs b n. [])\<rparr>
        (set_base MAX_SEG_OFF
           (foldl (add_extent example_small_extents) (ool_record_t_new 8) [0, 1])))) =
     2147483655 \<and>
   length (get_bptr (example_small_extents 0)) = 3"
  by (simp add: encode_def set_base_def add_extent_def ool_record_t_new_def OolExtent_new_def
      get_encoded_record_length_def seastore_get_encoded_record_length_def
      get_encoded_record_raw_mdlength_def p2roundup_def example_small_extents_length
      ool_get_bptr_def bptr_length_def set_ool_paddr_def get_ool_paddr_def MAX_SEG_OFF_def
      Let_def)


text \<open>
  The constructor and the mutators keep \<^verbatim>\<open>extent_buf_len\<close> equal to the total payload
  length of the descriptors, reduced to 32 bits, whatever the store of extents is at each
  call.
\<close>

lemma extent_buf_len_new:
  "extent_buf_len (ool_record_t_new bs) =
     of_nat (sum_list (map (\<lambda>d. length (extent_bl d)) (rec_extents (rec (ool_record_t_new bs)))))"
  by (simp add: ool_record_t_new_def)

lemma extent_buf_len_add_extent:
  assumes "extent_buf_len st =
      of_nat (sum_list (map (\<lambda>d. length (extent_bl d)) (rec_extents (rec st))))"
  shows "extent_buf_len (add_extent h st e) =
     of_nat (sum_list (map (\<lambda>d. length (extent_bl d)) (rec_extents (rec (add_extent h st e)))))"
  using assms by (simp add: add_extent_def bptr_length_def)

lemma extent_buf_len_set_base:
  assumes "extent_buf_len st =
      of_nat (sum_list (map (\<lambda>d. length (extent_bl d)) (rec_extents (rec st))))"
  shows "extent_buf_len (set_base b st) =
     of_nat (sum_list (map (\<lambda>d. length (extent_bl d)) (rec_extents (rec (set_base b st)))))"
  using assms by (simp add: set_base_def)

lemma extent_buf_len_clear:
  assumes "clear st = Inr st'"
  shows "extent_buf_len st' =
     of_nat (sum_list (map (\<lambda>d. length (extent_bl d)) (rec_extents (rec st'))))"
  using assms by (auto simp: clear_def split: if_splits)





section \<open>Properties of the classification loop\<close>

lemma alloc_map_emplace_back_mset:
  "mset (concat (map snd (alloc_map_emplace_back k v m))) = mset (concat (map snd m)) + {#v#}"
  by (induction k v m rule: alloc_map_emplace_back.induct) simp_all

lemma increment_delayed_invalid_extents_simps:
  "heap (increment_delayed_invalid_extents w) = heap w"
  "delayed_invalid_extents (increment_delayed_invalid_extents w) = Suc (delayed_invalid_extents w)"
  by (simp_all add: increment_delayed_invalid_extents_def)

lemma should_be_inline_frame:
  "should_be_inline x w = (b, w') \<Longrightarrow>
   heap w' = heap w \<and> delayed_invalid_extents w' = delayed_invalid_extents w"
  by (auto simp: should_be_inline_def std_rand_def)

lemma get_allocator_frame:
  "get_allocator pm ty h w = Inr (a, w') \<Longrightarrow>
   heap w' = heap w \<and> delayed_invalid_extents w' = delayed_invalid_extents w"
  by (auto simp: get_allocator_def std_rand_def Let_def split: if_splits)

lemma cache_mark_delayed_extent_inline_frame:
  "is_valid (heap (cache_mark_delayed_extent_inline E x w) r) = is_valid (heap w r)"
  "backend_type (heap (cache_mark_delayed_extent_inline E x w) r) = backend_type (heap w r)"
  "get_laddr (heap (cache_mark_delayed_extent_inline E x w) r) = get_laddr (heap w r)"
  "delayed_invalid_extents (cache_mark_delayed_extent_inline E x w) = delayed_invalid_extents w"
  "r \<noteq> x \<Longrightarrow> heap (cache_mark_delayed_extent_inline E x w) r = heap w r"
  by (simp_all add: cache_mark_delayed_extent_inline_def case_prod_beta)

text \<open>One round of the loop, by the ways an extent is treated.\<close>

lemma delayed_alloc_loop_invalid:
  "\<not> is_valid (heap (res_world s) x) \<Longrightarrow>
   delayed_alloc_loop E pm (x # rest) s =
     delayed_alloc_loop E pm rest
       (s\<lparr>res_world := increment_delayed_invalid_extents (res_world s)\<rparr>)"
  by simp

lemma delayed_alloc_loop_inline:
  "is_valid (heap (res_world s) x) \<Longrightarrow> should_be_inline x (res_world s) = (True, w1) \<Longrightarrow>
   delayed_alloc_loop E pm (x # rest) s =
     delayed_alloc_loop E pm rest
       (s\<lparr>res_world := cache_mark_delayed_extent_inline E x w1,
          res_log := res_log s @ [(MarkDelayedExtentInline x, Inr ())],
          inline_list := inline_list s @ [(get_paddr (heap w1 x), x)]\<rparr>)"
  by (simp add: Let_def)

lemma delayed_alloc_loop_ool:
  "is_valid (heap (res_world s) x) \<Longrightarrow> should_be_inline x (res_world s) = (False, w1) \<Longrightarrow>
   get_allocator pm (backend_type (heap w1 x)) (hint (heap w1 x)) w1 = Inr (a, w2) \<Longrightarrow>
   delayed_alloc_loop E pm (x # rest) s =
     delayed_alloc_loop E pm rest
       (s\<lparr>res_world := w2,
          alloc_map := alloc_map_emplace_back a x (alloc_map s),
          num_ool_extents := Suc (num_ool_extents s)\<rparr>)"
  by simp

lemma delayed_alloc_loop_crash:
  "is_valid (heap (res_world s) x) \<Longrightarrow> should_be_inline x (res_world s) = (False, w1) \<Longrightarrow>
   get_allocator pm (backend_type (heap w1 x)) (hint (heap w1 x)) w1 = Inl e \<Longrightarrow>
   delayed_alloc_loop E pm (x # rest) s = (Inl e, s\<lparr>res_world := w1\<rparr>)"
  by simp

lemma delayed_alloc_loop_counts:
  "delayed_alloc_loop E pm rs s = (Inr (), s') \<Longrightarrow>
   (\<forall>r. is_valid (heap (res_world s') r) = is_valid (heap (res_world s) r)) \<and>
   delayed_invalid_extents (res_world s') =
     delayed_invalid_extents (res_world s) +
     length (filter (\<lambda>r. \<not> is_valid (heap (res_world s) r)) rs) \<and>
   mset (map snd (inline_list s')) + mset (concat (map snd (alloc_map s'))) =
     mset (map snd (inline_list s)) + mset (concat (map snd (alloc_map s))) +
     mset (filter (\<lambda>r. is_valid (heap (res_world s) r)) rs)"
proof (induction rs arbitrary: s)
  case Nil
  then show ?case by simp
next
  case (Cons x rest)
  show ?case
  proof (cases "is_valid (heap (res_world s) x)")
    case False
    from Cons.prems have "delayed_alloc_loop E pm rest
        (s\<lparr>res_world := increment_delayed_invalid_extents (res_world s)\<rparr>) = (Inr (), s')"
      by (simp only: delayed_alloc_loop_invalid [OF False])
    from Cons.IH [OF this] False show ?thesis
      by (simp add: increment_delayed_invalid_extents_simps)
  next
    case True
    obtain b w1 where sb: "should_be_inline x (res_world s) = (b, w1)"
      by (cases "should_be_inline x (res_world s)")
    note f1 = should_be_inline_frame [OF sb]
    show ?thesis
    proof (cases b)
      case True
      with sb have sb': "should_be_inline x (res_world s) = (True, w1)" by simp
      from Cons.prems have "delayed_alloc_loop E pm rest
         (s\<lparr>res_world := cache_mark_delayed_extent_inline E x w1,
            res_log := res_log s @ [(MarkDelayedExtentInline x, Inr ())],
            inline_list := inline_list s @ [(get_paddr (heap w1 x), x)]\<rparr>) = (Inr (), s')"
        by (simp only: delayed_alloc_loop_inline [OF \<open>is_valid (heap (res_world s) x)\<close> sb'])
      from Cons.IH [OF this] \<open>is_valid (heap (res_world s) x)\<close> f1 show ?thesis
        by (simp add: cache_mark_delayed_extent_inline_frame)
    next
      case False
      with sb have sb': "should_be_inline x (res_world s) = (False, w1)" by simp
      show ?thesis
      proof (cases "get_allocator pm (backend_type (heap w1 x)) (hint (heap w1 x)) w1")
        case (Inl e)
        from Cons.prems show ?thesis
          by (simp only: delayed_alloc_loop_crash [OF \<open>is_valid (heap (res_world s) x)\<close> sb' Inl])
            simp
      next
        case (Inr p)
        obtain a w2 where p: "p = (a, w2)" by (cases p)
        note f2 = get_allocator_frame [OF Inr [unfolded p]]
        from Cons.prems have "delayed_alloc_loop E pm rest
           (s\<lparr>res_world := w2,
              alloc_map := alloc_map_emplace_back a x (alloc_map s),
              num_ool_extents := Suc (num_ool_extents s)\<rparr>) = (Inr (), s')"
          by (simp only: delayed_alloc_loop_ool
              [OF \<open>is_valid (heap (res_world s) x)\<close> sb' Inr [unfolded p]])
        from Cons.IH [OF this] \<open>is_valid (heap (res_world s) x)\<close> f1 f2 show ?thesis
          by (simp add: alloc_map_emplace_back_mset)
      qed
    qed
  qed
qed

lemma delayed_alloc_loop_backend_type:
  "delayed_alloc_loop E pm rs s = (res, s') \<Longrightarrow>
   backend_type (heap (res_world s') r) = backend_type (heap (res_world s) r)"
proof (induction rs arbitrary: s)
  case Nil
  then show ?case by simp
next
  case (Cons x rest)
  show ?case
  proof (cases "is_valid (heap (res_world s) x)")
    case False
    from Cons.prems have "delayed_alloc_loop E pm rest
        (s\<lparr>res_world := increment_delayed_invalid_extents (res_world s)\<rparr>) = (res, s')"
      by (simp only: delayed_alloc_loop_invalid [OF False])
    from Cons.IH [OF this] show ?thesis
      by (simp add: increment_delayed_invalid_extents_simps)
  next
    case True
    obtain b w1 where sb: "should_be_inline x (res_world s) = (b, w1)"
      by (cases "should_be_inline x (res_world s)")
    note f1 = should_be_inline_frame [OF sb]
    show ?thesis
    proof (cases b)
      case True
      with sb have sb': "should_be_inline x (res_world s) = (True, w1)" by simp
      from Cons.prems have "delayed_alloc_loop E pm rest
         (s\<lparr>res_world := cache_mark_delayed_extent_inline E x w1,
            res_log := res_log s @ [(MarkDelayedExtentInline x, Inr ())],
            inline_list := inline_list s @ [(get_paddr (heap w1 x), x)]\<rparr>) = (res, s')"
        by (simp only: delayed_alloc_loop_inline [OF \<open>is_valid (heap (res_world s) x)\<close> sb'])
      from Cons.IH [OF this] f1 show ?thesis
        by (simp add: cache_mark_delayed_extent_inline_frame)
    next
      case False
      with sb have sb': "should_be_inline x (res_world s) = (False, w1)" by simp
      show ?thesis
      proof (cases "get_allocator pm (backend_type (heap w1 x)) (hint (heap w1 x)) w1")
        case (Inl e)
        from Cons.prems f1 show ?thesis
          by (simp only: delayed_alloc_loop_crash [OF \<open>is_valid (heap (res_world s) x)\<close> sb' Inl])
            auto
      next
        case (Inr p)
        obtain a w2 where p: "p = (a, w2)" by (cases p)
        note f2 = get_allocator_frame [OF Inr [unfolded p]]
        from Cons.prems have "delayed_alloc_loop E pm rest
           (s\<lparr>res_world := w2,
              alloc_map := alloc_map_emplace_back a x (alloc_map s),
              num_ool_extents := Suc (num_ool_extents s)\<rparr>) = (res, s')"
          by (simp only: delayed_alloc_loop_ool
              [OF \<open>is_valid (heap (res_world s) x)\<close> sb' Inr [unfolded p]])
        from Cons.IH [OF this] f1 f2 show ?thesis
          by simp
      qed
    qed
  qed
qed

text \<open>The loop runs to its end when every family met has an allocator registered.\<close>

lemma delayed_alloc_loop_succeeds:
  "\<forall>r\<in>set rs. allocators pm (backend_type (heap (res_world s) r)) \<noteq> [] \<Longrightarrow>
   \<exists>s'. delayed_alloc_loop E pm rs s = (Inr (), s')"
proof (induction rs arbitrary: s)
  case Nil
  then show ?case by simp
next
  case (Cons x rest)
  show ?case
  proof (cases "is_valid (heap (res_world s) x)")
    case False
    have "\<forall>r\<in>set rest. allocators pm (backend_type
        (heap (res_world (s\<lparr>res_world := increment_delayed_invalid_extents (res_world s)\<rparr>)) r)) \<noteq> []"
      using Cons.prems by (simp add: increment_delayed_invalid_extents_simps)
    from Cons.IH [OF this] show ?thesis
      by (simp only: delayed_alloc_loop_invalid [OF False])
  next
    case True
    obtain b w1 where sb: "should_be_inline x (res_world s) = (b, w1)"
      by (cases "should_be_inline x (res_world s)")
    note f1 = should_be_inline_frame [OF sb]
    show ?thesis
    proof (cases b)
      case True
      with sb have sb': "should_be_inline x (res_world s) = (True, w1)" by simp
      have "\<forall>r\<in>set rest. allocators pm (backend_type
        (heap (res_world (s\<lparr>res_world := cache_mark_delayed_extent_inline E x w1,
            res_log := res_log s @ [(MarkDelayedExtentInline x, Inr ())],
            inline_list := inline_list s @ [(get_paddr (heap w1 x), x)]\<rparr>)) r)) \<noteq> []"
        using Cons.prems f1 by (simp add: cache_mark_delayed_extent_inline_frame)
      from Cons.IH [OF this] show ?thesis
        by (simp only: delayed_alloc_loop_inline [OF \<open>is_valid (heap (res_world s) x)\<close> sb'])
    next
      case False
      with sb have sb': "should_be_inline x (res_world s) = (False, w1)" by simp
      have "allocators pm (backend_type (heap w1 x)) \<noteq> []"
        using Cons.prems f1 by simp
      then obtain a w2 where
        ga: "get_allocator pm (backend_type (heap w1 x)) (hint (heap w1 x)) w1 = Inr (a, w2)"
        by (simp add: get_allocator_eq)
      note f2 = get_allocator_frame [OF ga]
      have "\<forall>r\<in>set rest. allocators pm (backend_type
        (heap (res_world (s\<lparr>res_world := w2,
              alloc_map := alloc_map_emplace_back a x (alloc_map s),
              num_ool_extents := Suc (num_ool_extents s)\<rparr>)) r)) \<noteq> []"
        using Cons.prems f1 f2 by simp
      from Cons.IH [OF this] show ?thesis
        by (simp only: delayed_alloc_loop_ool [OF \<open>is_valid (heap (res_world s) x)\<close> sb' ga])
    qed
  qed
qed

text \<open>
  Claim C3. When the loop of \<^verbatim>\<open>delayed_alloc_or_ool_write\<close> has run over the
  transaction's delayed-allocation list, the counter of invalid extents has grown by the
  number of invalid extents in the list (one for each), the extents in the inline list
  and in the allocators' groups together are exactly the valid extents of the list, each
  as often as the list has it (so once, and in one place only, when the list holds each
  extent once), and an invalid extent is in neither. The loop runs to its end when every
  family met has an allocator registered.
\<close>

theorem delayed_extents_classified:
  "((\<forall>r\<in>set (delayed_alloc_list w). allocators pm (backend_type (heap w r)) \<noteq> []) \<longrightarrow>
      (\<exists>s. delayed_alloc_loop E pm (delayed_alloc_list w) (resolution_new w log) = (Inr (), s))) \<and>
   (\<forall>s. delayed_alloc_loop E pm (delayed_alloc_list w) (resolution_new w log) = (Inr (), s) \<longrightarrow>
      delayed_invalid_extents (res_world s) =
        delayed_invalid_extents w +
        length (filter (\<lambda>r. \<not> is_valid (heap w r)) (delayed_alloc_list w)) \<and>
      mset (map snd (inline_list s)) + mset (concat (map snd (alloc_map s))) =
        mset (filter (\<lambda>r. is_valid (heap w r)) (delayed_alloc_list w)) \<and>
      (\<forall>r. \<not> is_valid (heap w r) \<longrightarrow>
         r \<notin> set (map snd (inline_list s)) \<and> r \<notin> set (concat (map snd (alloc_map s)))) \<and>
      (distinct (delayed_alloc_list w) \<longrightarrow>
         distinct (map snd (inline_list s) @ concat (map snd (alloc_map s)))))"
proof (intro conjI allI impI)
  assume "\<forall>r\<in>set (delayed_alloc_list w). allocators pm (backend_type (heap w r)) \<noteq> []"
  then have "\<forall>r\<in>set (delayed_alloc_list w).
      allocators pm (backend_type (heap (res_world (resolution_new w log)) r)) \<noteq> []"
    by (simp add: resolution_new_def)
  then show "\<exists>s. delayed_alloc_loop E pm (delayed_alloc_list w) (resolution_new w log) = (Inr (), s)"
    by (rule delayed_alloc_loop_succeeds)
next
  fix s
  assume run: "delayed_alloc_loop E pm (delayed_alloc_list w) (resolution_new w log) = (Inr (), s)"
  note c = delayed_alloc_loop_counts [OF run]
  from c show "delayed_invalid_extents (res_world s) =
      delayed_invalid_extents w +
      length (filter (\<lambda>r. \<not> is_valid (heap w r)) (delayed_alloc_list w))"
    by (simp add: resolution_new_def)
  from c show part: "mset (map snd (inline_list s)) + mset (concat (map snd (alloc_map s))) =
      mset (filter (\<lambda>r. is_valid (heap w r)) (delayed_alloc_list w))"
    by (simp add: resolution_new_def)
  show "distinct (map snd (inline_list s) @ concat (map snd (alloc_map s)))"
    if "distinct (delayed_alloc_list w)"
  proof -
    from part have "mset (map snd (inline_list s) @ concat (map snd (alloc_map s))) =
        mset (filter (\<lambda>r. is_valid (heap w r)) (delayed_alloc_list w))"
      by simp
    then have "distinct (map snd (inline_list s) @ concat (map snd (alloc_map s))) =
        distinct (filter (\<lambda>r. is_valid (heap w r)) (delayed_alloc_list w))"
      by (rule mset_eq_imp_distinct_iff)
    with that show ?thesis
      by simp
  qed
  fix r
  assume inv: "\<not> is_valid (heap w r)"
  have "r \<notin> set (filter (\<lambda>r. is_valid (heap w r)) (delayed_alloc_list w))"
    using inv by simp
  then have "r \<notin># mset (map snd (inline_list s)) + mset (concat (map snd (alloc_map s)))"
    by (simp only: part set_mset_mset not_False_eq_True)
  then show "r \<notin> set (map snd (inline_list s))"
    and "r \<notin> set (concat (map snd (alloc_map s)))"
    by simp_all
qed

lemma example_classification:
  "fst (delayed_alloc_loop example_collaborators example_manager [0, 1, 2, 3]
          (resolution_new example_delayed_world [])) = Inr () \<and>
   inline_list (snd (delayed_alloc_loop example_collaborators example_manager [0, 1, 2, 3]
          (resolution_new example_delayed_world []))) = [(\<lparr>seg_id = 0, seg_off = 0\<rparr>, 0)] \<and>
   alloc_map (snd (delayed_alloc_loop example_collaborators example_manager [0, 1, 2, 3]
          (resolution_new example_delayed_world []))) = [(40, [2, 3])] \<and>
   delayed_invalid_extents (res_world
      (snd (delayed_alloc_loop example_collaborators example_manager [0, 1, 2, 3]
          (resolution_new example_delayed_world [])))) = 1"
  by (simp add: resolution_new_def example_delayed_world_def example_collaborators_def
      example_manager_def example_extent_def should_be_inline_def std_rand_def
      get_allocator_def cache_mark_delayed_extent_inline_def
      increment_delayed_invalid_extents_def Let_def numeral_2_eq_2 [symmetric])

theorem delayed_extents_classified_witness:
  "list_all (\<lambda>r. allocators example_manager (backend_type (heap example_delayed_world r)) \<noteq> [])
     (delayed_alloc_list example_delayed_world) \<and>
   (\<exists>s. delayed_alloc_loop example_collaborators example_manager
           (delayed_alloc_list example_delayed_world)
           (resolution_new example_delayed_world []) = (Inr (), s) \<and>
        inline_list s = [(\<lparr>seg_id = 0, seg_off = 0\<rparr>, 0)] \<and>
        alloc_map s = [(40, [2, 3])] \<and>
        delayed_invalid_extents (res_world s) = 0 + length [1 :: nat] \<and>
        mset (map snd (inline_list s)) + mset (concat (map snd (alloc_map s))) = mset [0, 2, 3])"
proof -
  have l: "delayed_alloc_list example_delayed_world = [0, 1, 2, 3]"
    by (simp add: example_delayed_world_def)
  have a: "\<forall>r\<in>set (delayed_alloc_list example_delayed_world).
      allocators example_manager (backend_type (heap example_delayed_world r)) \<noteq> []"
    by (simp add: example_delayed_world_def example_manager_def example_extent_def)
  have v: "filter (\<lambda>r. is_valid (heap example_delayed_world r)) [0, 1, 2, 3] = [0, 2, 3]"
    "filter (\<lambda>r. \<not> is_valid (heap example_delayed_world r)) [0, 1, 2, 3] = [1]"
    "delayed_invalid_extents example_delayed_world = 0"
    by (simp_all add: example_delayed_world_def example_extent_def)
  note t = delayed_extents_classified
    [of example_delayed_world example_manager example_collaborators "[]"]
  from t [THEN conjunct1, THEN mp, OF a] obtain s where
    s: "delayed_alloc_loop example_collaborators example_manager
           (delayed_alloc_list example_delayed_world)
           (resolution_new example_delayed_world []) = (Inr (), s)" ..
  from t [THEN conjunct2, THEN spec, THEN mp, OF s]
  have c: "delayed_invalid_extents (res_world s) = 0 + length [1 :: nat]"
    and m: "mset (map snd (inline_list s)) + mset (concat (map snd (alloc_map s))) = mset [0, 2, 3]"
    unfolding l v by blast+
  from example_classification s [unfolded l]
  have i: "inline_list s = [(\<lparr>seg_id = 0, seg_off = 0\<rparr>, 0)]" and g: "alloc_map s = [(40, [2, 3])]"
    by (simp_all only: fst_conv snd_conv)
  from a have "list_all (\<lambda>r. allocators example_manager
      (backend_type (heap example_delayed_world r)) \<noteq> []) (delayed_alloc_list example_delayed_world)"
    by (simp only: list_all_iff)
  with s c m i g show ?thesis
    by blast
qed

section \<open>Properties of sequential iteration and of stop\<close>

text \<open>
  A \<^verbatim>\<open>do_for_each\<close> over calls that are logged with arguments taken from the element:
  either all calls are logged as successes, or the log ends with the first failure.
\<close>

lemma do_for_each_logged:
  assumes f: "\<And>x w log. f x (w, log) = (fst (g x w), snd (g x w), log @ [(c x, fst (g x w))])"
    and run: "do_for_each f xs (w, log) = (res, w', log')"
  shows "(res = Inr () \<and> log' = log @ map (\<lambda>x. (c x, Inr ())) xs) \<or>
     (\<exists>e n. res = Inl e \<and> n < length xs \<and>
        log' = log @ map (\<lambda>x. (c x, Inr ())) (take n xs) @ [(c (xs ! n), Inl e)])"
  using run
proof (induction xs arbitrary: w log)
  case Nil
  then show ?case by simp
next
  case (Cons x xs)
  show ?case
  proof (cases "fst (g x w)")
    case (Inl e)
    with Cons.prems have "res = Inl e" and "log' = log @ [(c x, Inl e)]"
      by (auto simp: f)
    then have "res = Inl e \<and> 0 < length (x # xs) \<and>
        log' = log @ map (\<lambda>x. (c x, Inr ())) (take 0 (x # xs)) @ [(c ((x # xs) ! 0), Inl e)]"
      by simp
    then show ?thesis by blast
  next
    case (Inr u)
    with Cons.prems have
      rest: "do_for_each f xs (snd (g x w), log @ [(c x, Inr ())]) = (res, w', log')"
      by (simp add: f)
    from Cons.IH [OF rest] show ?thesis
    proof
      assume "res = Inr () \<and> log' = (log @ [(c x, Inr ())]) @ map (\<lambda>x. (c x, Inr ())) xs"
      then show ?thesis by simp
    next
      assume "\<exists>e n. res = Inl e \<and> n < length xs \<and>
        log' = (log @ [(c x, Inr ())]) @ map (\<lambda>x. (c x, Inr ())) (take n xs) @
          [(c (xs ! n), Inl e)]"
      then obtain e n where "res = Inl e" and "n < length xs" and
        "log' = (log @ [(c x, Inr ())]) @ map (\<lambda>x. (c x, Inr ())) (take n xs) @
          [(c (xs ! n), Inl e)]"
        by blast
      then have "res = Inl e \<and> Suc n < length (x # xs) \<and>
        log' = log @ map (\<lambda>x. (c x, Inr ())) (take (Suc n) (x # xs)) @
          [(c ((x # xs) ! Suc n), Inl e)]"
        by simp
      then show ?thesis by blast
    qed
  qed
qed

lemma do_for_each_all_succeed:
  "\<forall>x\<in>set xs. \<forall>s. fst (f x s) = Inr () \<Longrightarrow> fst (do_for_each f xs s) = Inr ()"
proof (induction xs arbitrary: s)
  case Nil
  then show ?case by simp
next
  case (Cons x xs)
  from Cons.prems have "fst (f x s) = Inr ()" by simp
  then have "do_for_each f (x # xs) s = do_for_each f xs (snd (f x s))"
    by (cases "f x s") simp
  with Cons show ?case by simp
qed

lemma call_segment_close_logged:
  "call_segment_close E h (w, log) =
     (fst (segment_close E (segment h) w), snd (segment_close E (segment h) w),
      log @ [(SegmentClose (segment h), fst (segment_close E (segment h) w))])"
  by (simp add: call_segment_close_def case_prod_beta)

lemma Writer_stop_open:
  "\<not> gate_stopped (writer_guard wr) \<Longrightarrow>
   Writer_stop E wr s =
     (fst (do_for_each (call_segment_close E) (open_segments wr) s),
      wr\<lparr>writer_guard := (writer_guard wr)\<lparr>gate_stopped := True\<rparr>\<rparr>,
      snd (do_for_each (call_segment_close E) (open_segments wr) s))"
  by (simp add: Writer_stop_def gate_close_def case_prod_beta)

text \<open>
  Claim C6, as the code has it. \<^verbatim>\<open>stop()\<close> on a writer whose gate is already closed
  fails the gate's assertion and calls nothing. On a writer whose gate is open, whatever
  the result, it leaves the gate closed and the tracked handles as they were, and it
  calls \<^verbatim>\<open>close()\<close> on the segment of each tracked handle, in order, up to and including
  the first \<^verbatim>\<open>close()\<close> that fails, whose failure is the result; when it returns success,
  every tracked handle has been closed, once and with success; and it returns success
  when no \<^verbatim>\<open>close()\<close> fails.
\<close>

theorem writer_stop_once:
  "(gate_stopped (writer_guard wr) \<longrightarrow>
      Writer_stop E wr (w, log) = (Inl assertion_failed, wr, w, log)) \<and>
   (\<not> gate_stopped (writer_guard wr) \<longrightarrow>
      (\<forall>res wr' w' log'. Writer_stop E wr (w, log) = (res, wr', w', log') \<longrightarrow>
         gate_stopped (writer_guard wr') \<and> open_segments wr' = open_segments wr \<and>
         ((res = Inr () \<and>
           log' = log @ map (\<lambda>h. (SegmentClose (segment h), Inr ())) (open_segments wr)) \<or>
          (\<exists>e n. res = Inl e \<and> n < length (open_segments wr) \<and>
             log' = log @
               map (\<lambda>h. (SegmentClose (segment h), Inr ())) (take n (open_segments wr)) @
               [(SegmentClose (segment (open_segments wr ! n)), Inl e)]))) \<and>
      ((\<forall>h\<in>set (open_segments wr). \<forall>w1. fst (segment_close E (segment h) w1) = Inr ()) \<longrightarrow>
         fst (Writer_stop E wr (w, log)) = Inr ()))"
proof (intro conjI impI allI)
  assume "gate_stopped (writer_guard wr)"
  then show "Writer_stop E wr (w, log) = (Inl assertion_failed, wr, w, log)"
    by (simp add: Writer_stop_def gate_close_def)
next
  fix res wr' w' log'
  assume op: "\<not> gate_stopped (writer_guard wr)"
    and run: "Writer_stop E wr (w, log) = (res, wr', w', log')"
  from run have wr': "wr' = wr\<lparr>writer_guard := (writer_guard wr)\<lparr>gate_stopped := True\<rparr>\<rparr>"
    and it: "do_for_each (call_segment_close E) (open_segments wr) (w, log) = (res, w', log')"
    by (simp_all add: Writer_stop_open [OF op] prod_eq_iff)
  from wr' show "gate_stopped (writer_guard wr')" and "open_segments wr' = open_segments wr"
    by simp_all
  from do_for_each_logged [of "call_segment_close E" "\<lambda>h. segment_close E (segment h)"
      "\<lambda>h. SegmentClose (segment h)", OF call_segment_close_logged it]
  show "(res = Inr () \<and>
           log' = log @ map (\<lambda>h. (SegmentClose (segment h), Inr ())) (open_segments wr)) \<or>
          (\<exists>e n. res = Inl e \<and> n < length (open_segments wr) \<and>
             log' = log @
               map (\<lambda>h. (SegmentClose (segment h), Inr ())) (take n (open_segments wr)) @
               [(SegmentClose (segment (open_segments wr ! n)), Inl e)])" .
next
  assume op: "\<not> gate_stopped (writer_guard wr)"
    and ok: "\<forall>h\<in>set (open_segments wr). \<forall>w1. fst (segment_close E (segment h) w1) = Inr ()"
  have "\<forall>h\<in>set (open_segments wr). \<forall>s. fst (call_segment_close E h s) = Inr ()"
    using ok by (simp add: call_segment_close_def case_prod_beta)
  then have "fst (do_for_each (call_segment_close E) (open_segments wr) (w, log)) = Inr ()"
    by (rule do_for_each_all_succeed)
  then show "fst (Writer_stop E wr (w, log)) = Inr ()"
    by (simp add: Writer_stop_open [OF op])
qed

lemma example_writer_stop:
  "Writer_stop example_collaborators example_writer (example_world, []) =
     (Inr (), example_writer\<lparr>writer_guard := \<lparr>gate_stopped = True\<rparr>\<rparr>, example_world,
      [(SegmentClose 11, Inr ()), (SegmentClose 12, Inr ())])"
  by (simp add: Writer_stop_def gate_close_def call_segment_close_def example_writer_def
      example_collaborators_def)

lemma example_writer_stop_broken:
  "Writer_stop example_broken_collaborators example_writer (example_world, []) =
     (Inl input_output_error, example_writer\<lparr>writer_guard := \<lparr>gate_stopped = True\<rparr>\<rparr>,
      example_world, [(SegmentClose 11, Inl input_output_error)])"
  by (simp add: Writer_stop_def gate_close_def call_segment_close_def example_writer_def
      example_collaborators_def example_broken_collaborators_def)

lemma example_writer_segments:
  "open_segments example_writer =
     [\<lparr>segment = 11, outdated = True\<rparr>, \<lparr>segment = 12, outdated = False\<rparr>]"
  by (simp add: example_writer_def)

theorem writer_stop_once_witness:
  "\<not> gate_stopped (writer_guard example_writer) \<and>
   Writer_stop example_collaborators example_writer (example_world, []) =
     (Inr (), example_writer\<lparr>writer_guard := \<lparr>gate_stopped = True\<rparr>\<rparr>, example_world,
      [(SegmentClose 11, Inr ()), (SegmentClose 12, Inr ())]) \<and>
   Writer_stop example_broken_collaborators example_writer (example_world, []) =
     (Inl input_output_error, example_writer\<lparr>writer_guard := \<lparr>gate_stopped = True\<rparr>\<rparr>,
      example_world, [(SegmentClose 11, Inl input_output_error)]) \<and>
   gate_stopped (writer_guard (example_writer\<lparr>writer_guard := \<lparr>gate_stopped = True\<rparr>\<rparr>)) \<and>
   open_segments (example_writer\<lparr>writer_guard := \<lparr>gate_stopped = True\<rparr>\<rparr>) =
     open_segments example_writer \<and>
   ([(SegmentClose 11, Inr ()), (SegmentClose 12, Inr ())] :: call_log) =
     [] @ map (\<lambda>h. (SegmentClose (segment h), Inr ())) (open_segments example_writer) \<and>
   ([(SegmentClose 11, Inl input_output_error)] :: call_log) =
     [] @ map (\<lambda>h. (SegmentClose (segment h), Inr ())) (take 0 (open_segments example_writer)) @
     [(SegmentClose (segment (open_segments example_writer ! 0)), Inl input_output_error)] \<and>
   Writer_stop example_collaborators (example_writer\<lparr>writer_guard := \<lparr>gate_stopped = True\<rparr>\<rparr>)
       (example_world, []) =
     (Inl assertion_failed, example_writer\<lparr>writer_guard := \<lparr>gate_stopped = True\<rparr>\<rparr>,
      example_world, [])"
proof -
  have op: "\<not> gate_stopped (writer_guard example_writer)"
    by (simp add: example_writer_def)
  have cl: "gate_stopped (writer_guard (example_writer\<lparr>writer_guard := \<lparr>gate_stopped = True\<rparr>\<rparr>))"
    by simp
  note t1 = writer_stop_once [of example_writer example_collaborators example_world "[]",
      THEN conjunct2, THEN mp, OF op, THEN conjunct1, THEN spec, THEN spec, THEN spec,
      THEN spec, THEN mp, OF example_writer_stop]
  note t2 = writer_stop_once [of "example_writer\<lparr>writer_guard := \<lparr>gate_stopped = True\<rparr>\<rparr>"
      example_collaborators example_world "[]", THEN conjunct1, THEN mp, OF cl]
  note t3 = writer_stop_once [of example_writer example_broken_collaborators example_world "[]",
      THEN conjunct2, THEN mp, OF op, THEN conjunct1, THEN spec, THEN spec, THEN spec,
      THEN spec, THEN mp, OF example_writer_stop_broken]
  from t1 have ok: "([(SegmentClose 11, Inr ()), (SegmentClose 12, Inr ())] :: call_log) =
     [] @ map (\<lambda>h. (SegmentClose (segment h), Inr ())) (open_segments example_writer)"
    by simp
  from t3 have "\<exists>n. n < length (open_segments example_writer) \<and>
      ([(SegmentClose 11, Inl input_output_error)] :: call_log) =
      [] @ map (\<lambda>h. (SegmentClose (segment h), Inr ())) (take n (open_segments example_writer)) @
      [(SegmentClose (segment (open_segments example_writer ! n)), Inl input_output_error)]"
    by simp
  then obtain n where n: "n < length (open_segments example_writer)"
    and ln: "([(SegmentClose 11, Inl input_output_error)] :: call_log) =
      [] @ map (\<lambda>h. (SegmentClose (segment h), Inr ())) (take n (open_segments example_writer)) @
      [(SegmentClose (segment (open_segments example_writer ! n)), Inl input_output_error)]"
    by blast
  from ln have "length (take n (open_segments example_writer)) = 0"
    by (simp del: take_eq_Nil length_0_conv)
  with n have "n = 0"
    by simp
  with ln have bad: "([(SegmentClose 11, Inl input_output_error)] :: call_log) =
     [] @ map (\<lambda>h. (SegmentClose (segment h), Inr ())) (take 0 (open_segments example_writer)) @
     [(SegmentClose (segment (open_segments example_writer ! 0)), Inl input_output_error)]"
    by simp
  show ?thesis
    by (rule conjI op example_writer_stop example_writer_stop_broken t1 [THEN conjunct1]
        t1 [THEN conjunct2, THEN conjunct1] ok bad t2)+
qed

text \<open>
  Claim C6, as the spec states it, fails: the first \<^verbatim>\<open>stop()\<close> of a writer with two open
  segments succeeds and closes both, the second \<^verbatim>\<open>stop()\<close> of the same writer fails the
  assertion of \<^verbatim>\<open>seastar::gate::close()\<close>. And when the first \<^verbatim>\<open>close()\<close> fails,
  \<^verbatim>\<open>stop()\<close> ends with that failure and the second segment is not closed.
\<close>

theorem second_stop_fails_assertion:
  "Writer_stop example_collaborators example_writer (example_world, []) =
     (Inr (), example_writer\<lparr>writer_guard := \<lparr>gate_stopped = True\<rparr>\<rparr>, example_world,
      [(SegmentClose 11, Inr ()), (SegmentClose 12, Inr ())]) \<and>
   Writer_stop example_collaborators (example_writer\<lparr>writer_guard := \<lparr>gate_stopped = True\<rparr>\<rparr>)
     (example_world, [(SegmentClose 11, Inr ()), (SegmentClose 12, Inr ())]) =
     (Inl assertion_failed, example_writer\<lparr>writer_guard := \<lparr>gate_stopped = True\<rparr>\<rparr>,
      example_world, [(SegmentClose 11, Inr ()), (SegmentClose 12, Inr ())]) \<and>
   Writer_stop example_broken_collaborators example_writer (example_world, []) =
     (Inl input_output_error, example_writer\<lparr>writer_guard := \<lparr>gate_stopped = True\<rparr>\<rparr>,
      example_world, [(SegmentClose 11, Inl input_output_error)])"
  by (simp add: Writer_stop_def gate_close_def call_segment_close_def example_writer_def
      example_collaborators_def example_broken_collaborators_def)

text \<open>\<^verbatim>\<open>SegmentedAllocator::stop\<close> on two writers with two open segments each.\<close>

lemma example_allocator_stop:
  "SegmentedAllocator_stop example_collaborators example_allocator (example_world, []) =
     (Inr (),
      \<lparr>writers = [example_writer\<lparr>writer_guard := \<lparr>gate_stopped = True\<rparr>\<rparr>,
                  example_writer\<lparr>writer_guard := \<lparr>gate_stopped = True\<rparr>\<rparr>]\<rparr>,
      example_world,
      [(SegmentClose 11, Inr ()), (SegmentClose 12, Inr ()),
       (SegmentClose 11, Inr ()), (SegmentClose 12, Inr ())])"
  by (simp add: SegmentedAllocator_stop_def Writer_stop_def gate_close_def
      call_segment_close_def example_allocator_def example_writer_def example_collaborators_def)

section \<open>Properties of the partition among writers\<close>

lemma alloc_map_emplace_back_keys:
  "fst ` set (alloc_map_emplace_back k v m) = insert k (fst ` set m)"
  by (induction k v m rule: alloc_map_emplace_back.induct) auto

lemma alloc_map_emplace_back_sorted:
  "sorted (map fst m) \<Longrightarrow> distinct (map fst m) \<Longrightarrow>
   sorted (map fst (alloc_map_emplace_back k v m)) \<and>
   distinct (map fst (alloc_map_emplace_back k v m))"
proof (induction k v m rule: alloc_map_emplace_back.induct)
  case (1 k v)
  then show ?case by simp
next
  case (2 k v k' vs m)
  show ?case
  proof (cases "k = k'")
    case True
    with "2.prems" show ?thesis by simp
  next
    case ne: False
    show ?thesis
    proof (cases "k < k'")
      case True
      with ne "2.prems" show ?thesis by auto
    next
      case False
      with ne have lt: "k' < k" by simp
      from "2.prems" have sm: "sorted (map fst m)" and dm: "distinct (map fst m)"
        and le: "\<forall>a\<in>fst ` set m. k' \<le> a" and notin: "k' \<notin> fst ` set m"
        by auto
      from "2.IH" [OF ne False sm dm]
      have ih: "sorted (map fst (alloc_map_emplace_back k v m))"
        "distinct (map fst (alloc_map_emplace_back k v m))"
        by simp_all
      have "\<forall>a\<in>fst ` set (alloc_map_emplace_back k v m). k' \<le> a"
        using le lt by (simp add: alloc_map_emplace_back_keys)
      moreover have "k' \<notin> fst ` set (alloc_map_emplace_back k v m)"
        using notin ne by (simp add: alloc_map_emplace_back_keys)
      ultimately show ?thesis
        using ih ne False by simp
    qed
  qed
qed

text \<open>
  The loop hands every extent of the batch to one writer: the lists of the map hold the
  extents of the batch, each as often as the batch has it, and the map has one entry for
  a writer, the entries in the order of the writers.
\<close>

lemma writers_alloc_loop_partition:
  "writers_alloc_loop sa batch (m, w) = Inr (m', w') \<Longrightarrow>
   sorted (map fst m) \<Longrightarrow> distinct (map fst m) \<Longrightarrow>
   mset (concat (map snd m')) = mset (concat (map snd m)) + mset batch \<and>
   sorted (map fst m') \<and> distinct (map fst m')"
proof (induction batch arbitrary: m w)
  case Nil
  then show ?case by simp
next
  case (Cons x rest)
  from Cons.prems(1) obtain i w1 where
    gw: "get_writer sa (hint (heap w x)) w = Inr (i, w1)"
    and rest: "writers_alloc_loop sa rest (alloc_map_emplace_back i x m, w1) = Inr (m', w')"
    by (auto split: sum.splits)
  from alloc_map_emplace_back_sorted [OF Cons.prems(2,3), of i x]
  have "sorted (map fst (alloc_map_emplace_back i x m))"
    and "distinct (map fst (alloc_map_emplace_back i x m))"
    by simp_all
  from Cons.IH [OF rest this] show ?case
    by (simp add: alloc_map_emplace_back_mset)
qed

text \<open>
  When \<^verbatim>\<open>SegmentedAllocator::alloc_ool_extents_paddr\<close> returns success, it has called
  \<^verbatim>\<open>write\<close> once for each writer that was selected, with success, and the extents written
  are those of the batch.
\<close>

lemma SegmentedAllocator_alloc_ool_extents_paddr_success:
  assumes "SegmentedAllocator_alloc_ool_extents_paddr E sa batch (w, log) = (Inr (), w', log')"
  shows "\<exists>m. log' = log @ map (\<lambda>p. (WriterWrite (fst p) (snd p), Inr ())) m \<and>
     distinct (map fst m) \<and> mset (concat (map snd m)) = mset batch"
proof -
  from assms obtain m w1 where
    loop: "writers_alloc_loop sa batch ([], w) = Inr (m, w1)"
    and run: "do_for_each (call_writer_write E) m (w1, log) = (Inr (), w', log')"
    by (auto simp: SegmentedAllocator_alloc_ool_extents_paddr_def split: sum.splits)
  have logged: "\<And>x w log. call_writer_write E x (w, log) =
      (fst (writer_write E (fst x) (snd x) w), snd (writer_write E (fst x) (snd x) w),
       log @ [(WriterWrite (fst x) (snd x), fst (writer_write E (fst x) (snd x) w))])"
    by (simp add: call_writer_write_def Let_def case_prod_beta)
  from do_for_each_logged [of "call_writer_write E" "\<lambda>p. writer_write E (fst p) (snd p)"
      "\<lambda>p. WriterWrite (fst p) (snd p)", OF logged run]
  have "log' = log @ map (\<lambda>p. (WriterWrite (fst p) (snd p), Inr ())) m"
    by simp
  moreover from writers_alloc_loop_partition [OF loop]
  have "distinct (map fst m)" and "mset (concat (map snd m)) = mset batch"
    by simp_all
  ultimately show ?thesis
    by blast
qed

section \<open>Properties of the resolution pass\<close>




















section \<open>Order of dispatch\<close>












end
